theory Spec2Isabelle
  imports Main "HOL-Library.Sublist"
begin

section \<open>Host values and coercions\<close>

text \<open>
  The module that collects warnings is src/common.js; the component that shows them is
  src/index.js (the same class, with another \<^verbatim>\<open>render\<close>, is there a second time for
  react-blessed). index.js at the top of the repository is an older copy of both in one
  file; where it differs from them in what is modelled, the difference is written out.
  File names are relative to the root of the repository.

  The arguments of \<^verbatim>\<open>console.warn\<close> and \<^verbatim>\<open>console.error\<close> are arbitrary JavaScript
  values. Strings are lists of characters (code units); \<^verbatim>\<open>JNum\<close> holds the numbers that
  are whole; an object is an opaque reference into the host's heap, and everything the
  code does with an object goes through an operation of the host.
\<close>

datatype jsval =
    JUndefined
  | JNull
  | JBool bool
  | JNum int
  | JStr string
  | JSymbol string
  | JObject nat

datatype js_error = TypeError | Thrown jsval

type_synonym 'a result = "js_error + 'a"

text \<open>
  What \<^verbatim>\<open>addListener\<close> of the imported \<^verbatim>\<open>EventEmitter\<close> hands back: either a subscription
  object carrying a \<^verbatim>\<open>remove\<close> method for the listener, or the emitter itself, which has no
  such method (the \<^verbatim>\<open>events\<close> module of Node returns the emitter for chaining).
\<close>

datatype listener_handle = Subscription nat | EmitterItself

text \<open>
  The parts of the program's surroundings whose code is not in the repository are
  parameters of the model:
  \<^item> \<^verbatim>\<open>object_to_string\<close>: the string coercion of the object at an address (its
    \<^verbatim>\<open>toString\<close>/\<^verbatim>\<open>valueOf\<close>, which user code defines and which may throw);
  \<^item> \<^verbatim>\<open>stringifySafe\<close>: the default export of the package \<^verbatim>\<open>json-stringify-safe\<close>. Its
    first parameter is the value, its second a replacer, its third an indentation. It is
    called with the value alone (\<open>None\<close>) or, where it is handed to \<^verbatim>\<open>map\<close> as it is, with
    the value, its index and the whole array (\<open>Some (index, array)\<close>). Like
    \<^verbatim>\<open>JSON.stringify\<close> it returns a string or \<^verbatim>\<open>undefined\<close> (\<open>None\<close>), or throws;
  \<^item> \<^verbatim>\<open>addListener_returns\<close>: the value \<^verbatim>\<open>addListener\<close> returns for a listener;
  \<^item> \<^verbatim>\<open>exponent_notation\<close>: the text of a whole number from \<open>10 ^ 21\<close> on, which is written
    with an exponent.
\<close>

record host =
  object_to_string :: "nat \<Rightarrow> string result"
  stringifySafe :: "jsval \<Rightarrow> (nat \<times> jsval list) option \<Rightarrow> string option result"
  addListener_returns :: "nat \<Rightarrow> listener_handle"
  exponent_notation :: "int \<Rightarrow> string"

definition digit_char :: "nat \<Rightarrow> char" where
  "digit_char d = ''0123456789'' ! d"

fun show_nat :: "nat \<Rightarrow> string" where
  "show_nat n = (if n < 10 then [digit_char n] else show_nat (n div 10) @ [digit_char (n mod 10)])"

declare show_nat.simps [simp del]

definition show_int :: "int \<Rightarrow> string" where
  "show_int i = (if i < 0 then CHR ''-'' # show_nat (nat (- i)) else show_nat (nat i))"

text \<open>A whole number below \<open>10 ^ 21\<close> is written with all its digits.\<close>

definition number_text :: "(int \<Rightarrow> string) \<Rightarrow> int \<Rightarrow> string" where
  "number_text exponent i =
     (if \<bar>i\<bar> < 1000000000000000000000 then show_int i else exponent i)"

text \<open>The abstract operation ToString: a symbol cannot be converted and raises TypeError.\<close>

fun ToString :: "host \<Rightarrow> jsval \<Rightarrow> string result" where
  "ToString h JUndefined = Inr ''undefined''"
| "ToString h JNull = Inr ''null''"
| "ToString h (JBool b) = Inr (if b then ''true'' else ''false'')"
| "ToString h (JNum i) = Inr (number_text (exponent_notation h) i)"
| "ToString h (JStr s) = Inr s"
| "ToString h (JSymbol d) = Inl TypeError"
| "ToString h (JObject a) = object_to_string h a"

text \<open>The function \<^verbatim>\<open>String(value)\<close>: as ToString, but a symbol yields its description.\<close>

fun js_String :: "host \<Rightarrow> jsval \<Rightarrow> string result" where
  "js_String h (JSymbol d) = Inr (''Symbol('' @ d @ '')'')"
| "js_String h v = ToString h v"

text \<open>\<^verbatim>\<open>args[index]\<close>: reading past the end of an array gives \<^verbatim>\<open>undefined\<close>.\<close>

definition array_get :: "jsval list \<Rightarrow> nat \<Rightarrow> jsval" where
  "array_get xs i = (if i < length xs then xs ! i else JUndefined)"

text \<open>\<^verbatim>\<open>s.startsWith(p)\<close>: the code units of \<^verbatim>\<open>p\<close> are compared with those of \<^verbatim>\<open>s\<close> from position 0.\<close>

fun startsWith :: "string \<Rightarrow> string \<Rightarrow> bool" where
  "startsWith s [] = True"
| "startsWith [] (p # ps) = False"
| "startsWith (c # cs) (p # ps) = (c = p \<and> startsWith cs ps)"

section \<open>The regular expression \<^verbatim>\<open>/%s/g\<close>\<close>

text \<open>
  \<^verbatim>\<open>format.match(/%s/g)\<close>: the list of all non-overlapping matches, found left to right, or
  \<^verbatim>\<open>null\<close> when there is none.
\<close>

fun matches_pct_s :: "string \<Rightarrow> string list" where
  "matches_pct_s [] = []"
| "matches_pct_s [c] = []"
| "matches_pct_s (c # d # cs) =
     (if c = CHR ''%'' \<and> d = CHR ''s'' then ''%s'' # matches_pct_s cs
      else matches_pct_s (d # cs))"

definition match_pct_s :: "string \<Rightarrow> string list option" where
  "match_pct_s format = (case matches_pct_s format of [] \<Rightarrow> None | ms \<Rightarrow> Some ms)"

text \<open>
  \<^verbatim>\<open>format.replace(/%s/g, replacer)\<close> with a function as replacer: every match is replaced
  by the string coercion of what the replacer returns for it; the replacer is called once
  per match, in order, and may change the state it closes over (here the variable
  \<^verbatim>\<open>index\<close>). The text between the matches is copied.
\<close>

fun replace_pct_s :: "host \<Rightarrow> string \<Rightarrow> (string \<Rightarrow> 's \<Rightarrow> jsval \<times> 's) \<Rightarrow> 's \<Rightarrow> string result" where
  "replace_pct_s h [] replacer st = Inr []"
| "replace_pct_s h [c] replacer st = Inr [c]"
| "replace_pct_s h (c # d # cs) replacer st =
     (if c = CHR ''%'' \<and> d = CHR ''s'' then
        (case replacer ''%s'' st of (v, st') \<Rightarrow>
           (case ToString h v of
              Inl e \<Rightarrow> Inl e
            | Inr r \<Rightarrow>
               (case replace_pct_s h cs replacer st' of
                  Inl e \<Rightarrow> Inl e
                | Inr rest \<Rightarrow> Inr (r @ rest))))
      else
        (case replace_pct_s h (d # cs) replacer st of
           Inl e \<Rightarrow> Inl e
         | Inr rest \<Rightarrow> Inr (c # rest)))"

section \<open>The canonical key (src/common.js, sprintf and updateWarningMap)\<close>

text \<open>
  \<^verbatim>\<open>
  function sprintf(format, ...args) {
    var index = 0;
    return format.replace(/%s/g, match => args[index++]);
  }
  \<close>
\<close>

definition sprintf :: "host \<Rightarrow> string \<Rightarrow> jsval list \<Rightarrow> string result" where
  "sprintf h format args =
     replace_pct_s h format (\<lambda>match index. (array_get args index, index + 1)) (0::nat)"

text \<open>\<^verbatim>\<open>xs.map(arg => stringifySafe(arg))\<close>, stopping at the first call that throws.\<close>

fun map_stringifySafe :: "host \<Rightarrow> jsval list \<Rightarrow> string option list result" where
  "map_stringifySafe h [] = Inr []"
| "map_stringifySafe h (arg # rest) =
     (case stringifySafe h arg None of
        Inl e \<Rightarrow> Inl e
      | Inr v \<Rightarrow>
         (case map_stringifySafe h rest of
            Inl e \<Rightarrow> Inl e
          | Inr vs \<Rightarrow> Inr (v # vs)))"

text \<open>
  \<^verbatim>\<open>xs.join(' ')\<close> on an array of strings and \<^verbatim>\<open>undefined\<close>s: an element that is
  \<^verbatim>\<open>undefined\<close> contributes the empty string.
\<close>

fun join_element :: "string option \<Rightarrow> string" where
  "join_element None = []"
| "join_element (Some s) = s"

fun join_space :: "string option list \<Rightarrow> string" where
  "join_space [] = []"
| "join_space [v] = join_element v"
| "join_space (v # w # vs) = join_element v @ CHR '' '' # join_space (w # vs)"

text \<open>
  The first lines of \<^verbatim>\<open>updateWarningMap(format, ...args)\<close>, up to the constant \<^verbatim>\<open>warning\<close>.
  The argument is the whole argument list of the call; a call without arguments has
  \<^verbatim>\<open>format = undefined\<close>.
  \<^verbatim>\<open>
  format = String(format);
  const argCount = (format.match(/%s/g) || []).length;
  const warning = [
    sprintf(format, ...args.slice(0, argCount)),
    ...args.slice(argCount).map(arg => stringifySafe(arg)),
  ].join(' ');
  \<close>
\<close>

definition warning_key :: "host \<Rightarrow> jsval list \<Rightarrow> string result" where
  "warning_key h arguments =
     (let format0 = (case arguments of [] \<Rightarrow> JUndefined | f # _ \<Rightarrow> f);
          args = tl arguments
      in case js_String h format0 of
           Inl e \<Rightarrow> Inl e
         | Inr format \<Rightarrow>
            (let argCount = length (case match_pct_s format of None \<Rightarrow> [] | Some ms \<Rightarrow> ms)
             in case sprintf h format (take argCount args) of
                  Inl e \<Rightarrow> Inl e
                | Inr formatted \<Rightarrow>
                   (case map_stringifySafe h (drop argCount args) of
                      Inl e \<Rightarrow> Inl e
                    | Inr serialized \<Rightarrow> Inr (join_space (Some formatted # serialized)))))"

subsection \<open>The key in the older copy (index.js at the top of the repository)\<close>

text \<open>
  \<^verbatim>\<open>
  format = String(format);
  const argCount = (format.match(/%s/g) || []).length;
  const warning = [
    sprintf(format, ...args.slice(0, argCount)),
    ...args.slice(argCount).map(stringifySafe),
  ].join(' ');
  \<close>
  \<^verbatim>\<open>sprintf\<close> is the same function. The serializer is handed to \<^verbatim>\<open>map\<close> as it is, and
  \<^verbatim>\<open>map\<close> calls its function with the element, the index of the element and the array.
\<close>

fun map_stringifySafe_index ::
  "host \<Rightarrow> jsval list \<Rightarrow> nat \<Rightarrow> jsval list \<Rightarrow> string option list result" where
  "map_stringifySafe_index h array index [] = Inr []"
| "map_stringifySafe_index h array index (arg # rest) =
     (case stringifySafe h arg (Some (index, array)) of
        Inl e \<Rightarrow> Inl e
      | Inr v \<Rightarrow>
         (case map_stringifySafe_index h array (index + 1) rest of
            Inl e \<Rightarrow> Inl e
          | Inr vs \<Rightarrow> Inr (v # vs)))"

definition warning_key_index :: "host \<Rightarrow> jsval list \<Rightarrow> string result" where
  "warning_key_index h arguments =
     (let format0 = (case arguments of [] \<Rightarrow> JUndefined | f # _ \<Rightarrow> f);
          args = tl arguments
      in case js_String h format0 of
           Inl e \<Rightarrow> Inl e
         | Inr format \<Rightarrow>
            (let argCount = length (case match_pct_s format of None \<Rightarrow> [] | Some ms \<Rightarrow> ms)
             in case sprintf h format (take argCount args) of
                  Inl e \<Rightarrow> Inl e
                | Inr formatted \<Rightarrow>
                   (case map_stringifySafe_index h (drop argCount args) 0 (drop argCount args) of
                      Inl e \<Rightarrow> Inl e
                    | Inr serialized \<Rightarrow> Inr (join_space (Some formatted # serialized)))))"

section \<open>The key as the specification words it\<close>

text \<open>
  The safe string form of a trailing argument: what the serializer returns for it, as
  text (nothing for \<^verbatim>\<open>undefined\<close>, which is what the serializer returns for a value that
  has no JSON form).
\<close>

definition spec_safe_string :: "host \<Rightarrow> jsval \<Rightarrow> string result" where
  "spec_safe_string h arg =
     (case stringifySafe h arg None of
        Inl e \<Rightarrow> Inl e
      | Inr None \<Rightarrow> Inr []
      | Inr (Some s) \<Rightarrow> Inr s)"

text \<open>Every remaining argument, serialized, after one space each.\<close>

fun spec_trailing :: "host \<Rightarrow> jsval list \<Rightarrow> string result" where
  "spec_trailing h [] = Inr []"
| "spec_trailing h (arg # rest) =
     (case spec_safe_string h arg of
        Inl e \<Rightarrow> Inl e
      | Inr s \<Rightarrow>
         (case spec_trailing h rest of
            Inl e \<Rightarrow> Inl e
          | Inr t \<Rightarrow> Inr (CHR '' '' # s @ t)))"

text \<open>
  The format string is read from left to right with the arguments not yet used beside
  it. A placeholder takes the next argument, coerced to a string (a placeholder with no
  argument left takes \<^verbatim>\<open>undefined\<close>, the value of an absent argument); at the end of the
  format string the arguments left over are the trailing ones.
\<close>

fun spec_substitute :: "host \<Rightarrow> string \<Rightarrow> jsval list \<Rightarrow> (string \<times> jsval list) result" where
  "spec_substitute h [] args = Inr ([], args)"
| "spec_substitute h [c] args = Inr ([c], args)"
| "spec_substitute h (c # d # cs) args =
     (if c = CHR ''%'' \<and> d = CHR ''s'' then
        (case ToString h (case args of [] \<Rightarrow> JUndefined | a # _ \<Rightarrow> a) of
           Inl e \<Rightarrow> Inl e
         | Inr r \<Rightarrow>
            (case spec_substitute h cs (tl args) of
               Inl e \<Rightarrow> Inl e
             | Inr (rest, left) \<Rightarrow> Inr (r @ rest, left)))
      else
        (case spec_substitute h (d # cs) args of
           Inl e \<Rightarrow> Inl e
         | Inr (rest, left) \<Rightarrow> Inr (c # rest, left)))"

definition spec_key :: "host \<Rightarrow> jsval \<Rightarrow> jsval list \<Rightarrow> string result" where
  "spec_key h format args =
     (case js_String h format of
        Inl e \<Rightarrow> Inl e
      | Inr f \<Rightarrow>
         (case spec_substitute h f args of
            Inl e \<Rightarrow> Inl e
          | Inr (formatted, trailing) \<Rightarrow>
             (case spec_trailing h trailing of
                Inl e \<Rightarrow> Inl e
              | Inr t \<Rightarrow> Inr (formatted @ t))))"

section \<open>The serializer\<close>

text \<open>
  Modelled from the spec: the serializer \<^verbatim>\<open>json-stringify-safe\<close>, a package the module
  requires and whose code is not in the repository. The specification asks of it that it
  never throws and that, on a reference cycle or any serialization fault, a fixed
  placeholder token stands for the argument. Its model is therefore plain serialization
  with the placeholder where that fails. Plain serialization (\<^verbatim>\<open>JSON.stringify\<close>) is a
  parameter; it makes of a value a text, nothing (\<^verbatim>\<open>undefined\<close>, for a value that has no
  JSON form), or it fails, on a reference cycle or through some other fault.
\<close>

datatype plain_result = Text string | NoJson | Cycle | Fault js_error

text \<open>Modelled from the spec: the fixed placeholder token.\<close>

definition placeholder :: string where
  "placeholder = ''[Circular ~]''"

text \<open>Modelled from the spec: what the serializer returns where plain serialization gives \<open>r\<close>.\<close>

definition serialized :: "plain_result \<Rightarrow> string option" where
  "serialized r =
     (case r of
        Text s \<Rightarrow> Some s
      | NoJson \<Rightarrow> None
      | Cycle \<Rightarrow> Some placeholder
      | Fault e \<Rightarrow> Some placeholder)"

text \<open>
  Modelled from the spec: the serializer called with the value alone (\<open>None\<close>), as
  above. Of a call with more arguments the specification says nothing. The package takes
  its second argument for a replacer and calls a replacer that is not \<^verbatim>\<open>null\<close> as a
  function; \<^verbatim>\<open>map\<close> puts the index of the element there, a number, which is no function:
  TypeError.
\<close>

definition json_stringify_safe ::
  "(jsval \<Rightarrow> plain_result) \<Rightarrow> jsval \<Rightarrow> (nat \<times> jsval list) option \<Rightarrow> string option result" where
  "json_stringify_safe plain v extra =
     (case extra of
        None \<Rightarrow> Inr (serialized (plain v))
      | Some (index, array) \<Rightarrow> Inl TypeError)"

section \<open>The warning map\<close>

text \<open>
  \<^verbatim>\<open>_warningMap\<close> is a \<^verbatim>\<open>Map\<close> from keys to counts. A \<^verbatim>\<open>Map\<close> iterates in the order in which
  its keys were first inserted, so it is a list of entries, oldest first. Counts are kept
  as natural numbers (the numbers the code produces are whole, and whole numbers below
  \<open>2 ^ 53\<close> are exact).
\<close>

type_synonym warning_map = "(string \<times> nat) list"

fun Map_has :: "string \<Rightarrow> warning_map \<Rightarrow> bool" where
  "Map_has k [] = False"
| "Map_has k ((k', c) # m) = (if k' = k then True else Map_has k m)"

fun Map_get :: "string \<Rightarrow> warning_map \<Rightarrow> nat option" where
  "Map_get k [] = None"
| "Map_get k ((k', c) # m) = (if k' = k then Some c else Map_get k m)"

text \<open>\<^verbatim>\<open>set\<close> keeps the position of a key that is present and appends a new key.\<close>

fun Map_set :: "string \<Rightarrow> nat \<Rightarrow> warning_map \<Rightarrow> warning_map" where
  "Map_set k v [] = [(k, v)]"
| "Map_set k v ((k', c) # m) = (if k' = k then (k, v) # m else (k', c) # Map_set k v m)"

fun Map_delete :: "string \<Rightarrow> warning_map \<Rightarrow> warning_map" where
  "Map_delete k [] = []"
| "Map_delete k ((k', c) # m) = (if k' = k then m else (k', c) # Map_delete k m)"

definition Map_clear :: "warning_map \<Rightarrow> warning_map" where
  "Map_clear m = []"

section \<open>The state of the module and of the mounted components\<close>

text \<open>
  One \<^verbatim>\<open>YellowBox\<close> instance: \<^verbatim>\<open>state.inspecting\<close> (\<open>None\<close> is \<^verbatim>\<open>null\<close>), the variable
  \<^verbatim>\<open>scheduled\<close> that its listener closes over (true when it holds the handle of a pending
  \<^verbatim>\<open>setImmediate\<close>, false when it is \<^verbatim>\<open>null\<close>), and the field \<^verbatim>\<open>_listener\<close> (\<open>None\<close> until
  \<^verbatim>\<open>componentDidMount\<close> has run). \<^verbatim>\<open>state.warningMap\<close> always refers to the one map
  \<^verbatim>\<open>_warningMap\<close>, so it is not stored again.
\<close>

record component =
  inspecting :: "string option"
  scheduled :: bool
  listener :: "listener_handle option"

datatype console_method = OriginalError | OriginalWarn

text \<open>
  The module's state and what it has done to its surroundings:
  \<^item> \<^verbatim>\<open>warningMap\<close>: the contents of \<^verbatim>\<open>_warningMap\<close>;
  \<^item> \<^verbatim>\<open>listeners\<close>: the listeners of \<^verbatim>\<open>_warningEmitter\<close> for the event \<^verbatim>\<open>'warning'\<close>, in the
    order of registration, each named by the component whose \<^verbatim>\<open>componentDidMount\<close>
    created it;
  \<^item> \<^verbatim>\<open>components\<close>: the instances constructed so far;
  \<^item> \<^verbatim>\<open>immediates\<close>: the callbacks handed to \<^verbatim>\<open>setImmediate\<close> that have not run yet, each
    named by its component;
  \<^item> \<^verbatim>\<open>deliveries\<close>: the calls \<^verbatim>\<open>this.setState({warningMap})\<close> made by those callbacks, with
    the contents of the map at the time of the call;
  \<^item> \<^verbatim>\<open>console_out\<close>: the calls of the original \<^verbatim>\<open>console.error\<close> and \<^verbatim>\<open>console.warn\<close>.
\<close>

record world =
  warningMap :: warning_map
  listeners :: "nat list"
  components :: "component list"
  immediates :: "nat list"
  deliveries :: "(nat \<times> warning_map) list"
  console_out :: "(console_method \<times> jsval list) list"

definition initial_world :: world where
  "initial_world =
     \<lparr>warningMap = [], listeners = [], components = [], immediates = [],
      deliveries = [], console_out = []\<rparr>"

definition update_component :: "nat \<Rightarrow> (component \<Rightarrow> component) \<Rightarrow> world \<Rightarrow> world" where
  "update_component c f w =
     (if c < length (components w)
      then w\<lparr>components := (components w)[c := f (components w ! c)]\<rparr>
      else w)"

definition is_scheduled :: "nat \<Rightarrow> world \<Rightarrow> bool" where
  "is_scheduled c w = (c < length (components w) \<and> scheduled (components w ! c))"

subsection \<open>The listener and the emitter (src/index.js, componentDidMount)\<close>

text \<open>
  \<^verbatim>\<open>
  let scheduled = null;
  this._listener = _warningEmitter.addListener('warning', warningMap => {
    scheduled = scheduled || setImmediate(() => {
      scheduled = null;
      this.setState({warningMap });
    });
  });
  \<close>
  The listener of component \<open>c\<close>, called by \<^verbatim>\<open>emit\<close>:
\<close>

definition warning_listener :: "nat \<Rightarrow> world \<Rightarrow> world" where
  "warning_listener c w =
     (if is_scheduled c w then w
      else update_component c (\<lambda>comp. comp\<lparr>scheduled := True\<rparr>)
             (w\<lparr>immediates := immediates w @ [c]\<rparr>))"

text \<open>
  The callback it hands to \<^verbatim>\<open>setImmediate\<close>, run by the host on a later turn. The
  \<^verbatim>\<open>warningMap\<close> it passes on is the map object itself, not a copy, so the component sees
  the map as it is when the callback runs.
\<close>

definition immediate_callback :: "nat \<Rightarrow> world \<Rightarrow> world" where
  "immediate_callback c w =
     (update_component c (\<lambda>comp. comp\<lparr>scheduled := False\<rparr>) w)
       \<lparr>deliveries := deliveries w @ [(c, warningMap w)]\<rparr>"

text \<open>\<^verbatim>\<open>_warningEmitter.emit('warning', _warningMap)\<close> calls every listener, in order.\<close>

fun call_listeners :: "nat list \<Rightarrow> world \<Rightarrow> world" where
  "call_listeners [] w = w"
| "call_listeners (c # cs) w = call_listeners cs (warning_listener c w)"

definition emit :: "world \<Rightarrow> world" where
  "emit w = call_listeners (listeners w) w"

text \<open>
  One turn of the host's loop: the callbacks queued by \<^verbatim>\<open>setImmediate\<close> so far are run, in
  order.
\<close>

fun run_callbacks :: "nat list \<Rightarrow> world \<Rightarrow> world" where
  "run_callbacks [] w = w"
| "run_callbacks (c # cs) w = run_callbacks cs (immediate_callback c w)"

definition run_immediates :: "world \<Rightarrow> world" where
  "run_immediates w = run_callbacks (immediates w) (w\<lparr>immediates := []\<rparr>)"

subsection \<open>updateWarningMap (src/common.js)\<close>

text \<open>
  \<^verbatim>\<open>
  const count = _warningMap.has(warning) ? _warningMap.get(warning) : 0;
  _warningMap.set(warning, count + 1);
  _warningEmitter.emit('warning', _warningMap);
  \<close>
  An exception of the key's construction leaves the function before the map is touched.
\<close>

definition warning_count :: "string \<Rightarrow> warning_map \<Rightarrow> nat" where
  "warning_count warning m =
     (if Map_has warning m then (case Map_get warning m of Some c \<Rightarrow> c | None \<Rightarrow> 0) else 0)"

definition updateWarningMap :: "host \<Rightarrow> jsval list \<Rightarrow> world \<Rightarrow> unit result \<times> world" where
  "updateWarningMap h arguments w =
     (case warning_key h arguments of
        Inl e \<Rightarrow> (Inl e, w)
      | Inr warning \<Rightarrow>
         (let count = warning_count warning (warningMap w)
          in (Inr (), emit (w\<lparr>warningMap := Map_set warning (count + 1) (warningMap w)\<rparr>))))"

text \<open>
  The older copy (index.js at the top of the repository) has the same three lines behind
  its own construction of the key.
\<close>

definition updateWarningMap_index :: "host \<Rightarrow> jsval list \<Rightarrow> world \<Rightarrow> unit result \<times> world" where
  "updateWarningMap_index h arguments w =
     (case warning_key_index h arguments of
        Inl e \<Rightarrow> (Inl e, w)
      | Inr warning \<Rightarrow>
         (let count = warning_count warning (warningMap w)
          in (Inr (), emit (w\<lparr>warningMap := Map_set warning (count + 1) (warningMap w)\<rparr>))))"

subsection \<open>The wrapped console functions\<close>

text \<open>
  The two facts of the environment the module reads: whether \<^verbatim>\<open>process.env.NODE_ENV\<close> is
  \<^verbatim>\<open>'production'\<close>, and whether a global \<^verbatim>\<open>window\<close> exists.
\<close>

record env =
  production :: bool
  has_window :: bool

text \<open>\<^verbatim>\<open>error.apply(console, arguments)\<close> and \<^verbatim>\<open>warn.apply(console, arguments)\<close>.\<close>

definition original :: "console_method \<Rightarrow> jsval list \<Rightarrow> world \<Rightarrow> world" where
  "original method arguments w = w\<lparr>console_out := console_out w @ [(method, arguments)]\<rparr>"

text \<open>\<^verbatim>\<open>typeof arguments[0] === 'string' && arguments[0].startsWith('Warning: ')\<close>\<close>

fun is_warning_call :: "jsval list \<Rightarrow> bool" where
  "is_warning_call (JStr s # rest) = startsWith s ''Warning: ''"
| "is_warning_call arguments = False"

text \<open>
  src/common.js:
  \<^verbatim>\<open>
  console.error = function() {
    error.apply(console, arguments);
    // Show yellow box for the `warning` module.
    if (typeof arguments[0] === 'string' &&
        arguments[0].startsWith('Warning: ')) {
      updateWarningMap.apply(null, arguments);
    }
  };
  console.warn = function() {
    // this is a cheap trick to keep blessed environment from printining
    // warnings in the UI while still allowing React web to print them.
    if (typeof window !== 'undefined') {
      warn.apply(console, arguments);
    }
    updateWarningMap.apply(null, arguments);
  };
  \<close>
\<close>

definition wrapped_error :: "host \<Rightarrow> jsval list \<Rightarrow> world \<Rightarrow> unit result \<times> world" where
  "wrapped_error h arguments w =
     (let w1 = original OriginalError arguments w
      in if is_warning_call arguments then updateWarningMap h arguments w1 else (Inr (), w1))"

definition wrapped_warn :: "host \<Rightarrow> env \<Rightarrow> jsval list \<Rightarrow> world \<Rightarrow> unit result \<times> world" where
  "wrapped_warn h e arguments w =
     (let w1 = (if has_window e then original OriginalWarn arguments w else w)
      in updateWarningMap h arguments w1)"

text \<open>
  The older copy of the module (index.js at the top of the repository) forwards every
  warning:
  \<^verbatim>\<open>
  console.warn = function() {
    warn.apply(console, arguments);
    updateWarningMap.apply(null, arguments);
  };
  \<close>
\<close>

definition wrapped_warn_index :: "host \<Rightarrow> jsval list \<Rightarrow> world \<Rightarrow> unit result \<times> world" where
  "wrapped_warn_index h arguments w =
     updateWarningMap_index h arguments (original OriginalWarn arguments w)"

text \<open>
  \<^verbatim>\<open>console.error\<close> and \<^verbatim>\<open>console.warn\<close> once the module is loaded: the wrappers are installed
  under \<^verbatim>\<open>if (process.env.NODE_ENV !== 'production')\<close>.
\<close>

definition console_error :: "host \<Rightarrow> env \<Rightarrow> jsval list \<Rightarrow> world \<Rightarrow> unit result \<times> world" where
  "console_error h e arguments w =
     (if production e then (Inr (), original OriginalError arguments w)
      else wrapped_error h arguments w)"

definition console_warn :: "host \<Rightarrow> env \<Rightarrow> jsval list \<Rightarrow> world \<Rightarrow> unit result \<times> world" where
  "console_warn h e arguments w =
     (if production e then (Inr (), original OriginalWarn arguments w)
      else wrapped_warn h e arguments w)"

subsection \<open>isWarningIgnored (src/common.js)\<close>

text \<open>
  \<^verbatim>\<open>
  export function isWarningIgnored(warning: string): boolean {
    return (
      Array.isArray(console.ignoredYellowBox) &&
      console.ignoredYellowBox.some(
        ignorePrefix => warning.startsWith(ignorePrefix)
      )
    );
  }
  \<close>
  \<^verbatim>\<open>console.ignoredYellowBox\<close> is read at each call; it is an array of strings (\<open>Some\<close>) or
  something that is not an array, as when it was never set (\<open>None\<close>).
\<close>

fun array_some :: "('a \<Rightarrow> bool) \<Rightarrow> 'a list \<Rightarrow> bool" where
  "array_some p [] = False"
| "array_some p (x # xs) = (if p x then True else array_some p xs)"

definition isWarningIgnored :: "string list option \<Rightarrow> string \<Rightarrow> bool" where
  "isWarningIgnored ignoredYellowBox warning =
     (case ignoredYellowBox of
        None \<Rightarrow> False
      | Some ignored \<Rightarrow> array_some (\<lambda>ignorePrefix. startsWith warning ignorePrefix) ignored)"

subsection \<open>The component (src/index.js)\<close>

text \<open>
  \<^verbatim>\<open>
  this.dismissWarning = warning => {
    const {inspecting, warningMap} = this.state;
    if (warning) {
      warningMap.delete(warning);
    } else {
      warningMap.clear();
    }
    this.setState({
      inspecting: (warning && inspecting !== warning) ? inspecting : null,
      warningMap,
    });
  };
  \<close>
  The callers pass a key of the map or \<^verbatim>\<open>null\<close> (\<open>None\<close>). A string is truthy unless it is
  empty; \<^verbatim>\<open>null\<close> is falsy and is no key of the map.
\<close>

fun truthy :: "string option \<Rightarrow> bool" where
  "truthy None = False"
| "truthy (Some s) = (s \<noteq> [])"

definition dismiss_map :: "string option \<Rightarrow> warning_map \<Rightarrow> warning_map" where
  "dismiss_map warning m =
     (if truthy warning then (case warning of Some k \<Rightarrow> Map_delete k m | None \<Rightarrow> m)
      else Map_clear m)"

definition dismissWarning :: "nat \<Rightarrow> string option \<Rightarrow> world \<Rightarrow> world" where
  "dismissWarning c warning w =
     update_component c
       (\<lambda>comp. comp\<lparr>inspecting :=
          (if truthy warning \<and> inspecting comp \<noteq> warning then inspecting comp else None)\<rparr>)
       (w\<lparr>warningMap := dismiss_map warning (warningMap w)\<rparr>)"

text \<open>
  The constructor and \<^verbatim>\<open>componentDidMount\<close>: a new instance, its listener registered with
  the emitter, and what \<^verbatim>\<open>addListener\<close> returned kept in \<^verbatim>\<open>_listener\<close>.
\<close>

definition constructor :: "world \<Rightarrow> world" where
  "constructor w =
     w\<lparr>components := components w @ [\<lparr>inspecting = None, scheduled = False, listener = None\<rparr>]\<rparr>"

definition componentDidMount :: "host \<Rightarrow> nat \<Rightarrow> world \<Rightarrow> world" where
  "componentDidMount h c w =
     update_component c (\<lambda>comp. comp\<lparr>scheduled := False, listener := Some (addListener_returns h c)\<rparr>)
       (w\<lparr>listeners := listeners w @ [c]\<rparr>)"

definition mount :: "host \<Rightarrow> world \<Rightarrow> world" where
  "mount h w = componentDidMount h (length (components w)) (constructor w)"

text \<open>
  src/index.js:
  \<^verbatim>\<open>
  componentWillUnmount() {
    if (this._listener && typeof this._listener.remove === 'function') {
      this._listener.remove();
    }
  }
  \<close>
  \<^verbatim>\<open>remove\<close> of a subscription takes its listener off the emitter.
\<close>

definition has_remove :: "listener_handle \<Rightarrow> bool" where
  "has_remove handle = (case handle of Subscription l \<Rightarrow> True | EmitterItself \<Rightarrow> False)"

definition remove_listener :: "listener_handle \<Rightarrow> world \<Rightarrow> unit result \<times> world" where
  "remove_listener handle w =
     (case handle of
        Subscription l \<Rightarrow> (Inr (), w\<lparr>listeners := filter (\<lambda>x. x \<noteq> l) (listeners w)\<rparr>)
      | EmitterItself \<Rightarrow> (Inl TypeError, w))"

definition component_listener :: "nat \<Rightarrow> world \<Rightarrow> listener_handle option" where
  "component_listener c w = (if c < length (components w) then listener (components w ! c) else None)"

definition componentWillUnmount :: "nat \<Rightarrow> world \<Rightarrow> unit result \<times> world" where
  "componentWillUnmount c w =
     (case component_listener c w of
        None \<Rightarrow> (Inr (), w)
      | Some handle \<Rightarrow> if has_remove handle then remove_listener handle w else (Inr (), w))"

text \<open>
  The older copy (index.js at the top of the repository) calls \<^verbatim>\<open>remove\<close> unguarded:
  \<^verbatim>\<open>
  componentWillUnmount() {
    if (this._listener) {
      this._listener.remove();
    }
  }
  \<close>
\<close>

definition componentWillUnmount_index :: "nat \<Rightarrow> world \<Rightarrow> unit result \<times> world" where
  "componentWillUnmount_index c w =
     (case component_listener c w of
        None \<Rightarrow> (Inr (), w)
      | Some handle \<Rightarrow> remove_listener handle w)"

subsection \<open>Runs of the module\<close>

text \<open>
  What can happen to the module, one event at a time: a call of \<^verbatim>\<open>updateWarningMap\<close>
  (the specification's record), of \<^verbatim>\<open>console.error\<close> or \<^verbatim>\<open>console.warn\<close>, of
  \<^verbatim>\<open>dismissWarning\<close> on a component with a key or \<^verbatim>\<open>null\<close>, the mounting of a new
  component, the unmounting of one, and a turn of the host's loop. A call that throws
  leaves the state as it was when the exception was raised.
\<close>

datatype event =
    Record "jsval list"
  | ConsoleError "jsval list"
  | ConsoleWarn "jsval list"
  | Dismiss nat "string option"
  | Mount
  | Unmount nat
  | Tick

fun step :: "host \<Rightarrow> env \<Rightarrow> event \<Rightarrow> world \<Rightarrow> world" where
  "step h e (Record arguments) w = snd (updateWarningMap h arguments w)"
| "step h e (ConsoleError arguments) w = snd (console_error h e arguments w)"
| "step h e (ConsoleWarn arguments) w = snd (console_warn h e arguments w)"
| "step h e (Dismiss c warning) w = dismissWarning c warning w"
| "step h e Mount w = mount h w"
| "step h e (Unmount c) w = snd (componentWillUnmount c w)"
| "step h e Tick w = run_immediates w"

fun run :: "host \<Rightarrow> env \<Rightarrow> event list \<Rightarrow> world \<Rightarrow> world" where
  "run h e [] w = w"
| "run h e (ev # evs) w = run h e evs (step h e ev w)"

subsection \<open>Well-formed maps and a host for the examples\<close>

text \<open>A \<^verbatim>\<open>Map\<close> holds a key once; the counts the module stores are positive.\<close>

definition map_ok :: "warning_map \<Rightarrow> bool" where
  "map_ok m = (distinct (map fst m) \<and> (\<forall>entry \<in> set m. 1 \<le> snd entry))"

text \<open>
  The variable \<^verbatim>\<open>scheduled\<close> of a listener and the host's queue agree: a component has a
  callback in the queue exactly when its \<^verbatim>\<open>scheduled\<close> is set, no callback is queued
  twice, and every listener belongs to a component that exists.
\<close>

definition sched_ok :: "world \<Rightarrow> bool" where
  "sched_ok w =
     (distinct (immediates w)
      \<and> (\<forall>c. is_scheduled c w \<longleftrightarrow> c \<in> set (immediates w))
      \<and> (\<forall>c \<in> set (listeners w). c < length (components w)))"

text \<open>
  One possible host, used where a property is shown at a concrete input. An object
  prints as \<^verbatim>\<open>[object Object]\<close>; the object at address 0 is empty and serializes as \<^verbatim>\<open>{}\<close>,
  every other object refers to itself; the other values serialize as \<^verbatim>\<open>JSON.stringify\<close>
  writes them (strings without characters that need escaping); the serializer is the one
  above; \<^verbatim>\<open>addListener\<close> returns the emitter. A number from \<open>10 ^ 21\<close> on is written as
  its first digit, a point and the digits behind it up to the last that is not 0, and
  the exponent, which is how a number of at most 15 such digits is written.
\<close>

fun strip_zeros :: "string \<Rightarrow> string" where
  "strip_zeros [] = []"
| "strip_zeros (c # cs) =
     (case strip_zeros cs of
        [] \<Rightarrow> (if c = CHR ''0'' then [] else [c])
      | rest \<Rightarrow> c # rest)"

definition sample_exponent :: "int \<Rightarrow> string" where
  "sample_exponent i =
     (let digits = show_nat (nat \<bar>i\<bar>);
          mantissa = (case digits of
                        [] \<Rightarrow> []
                      | d # ds \<Rightarrow> (case strip_zeros ds of [] \<Rightarrow> [d] | rest \<Rightarrow> d # CHR ''.'' # rest))
      in (if i < 0 then ''-'' else []) @ mantissa @ ''e+'' @ show_nat (length digits - 1))"

definition sample_plain :: "jsval \<Rightarrow> plain_result" where
  "sample_plain v =
     (case v of
        JUndefined \<Rightarrow> NoJson
      | JNull \<Rightarrow> Text ''null''
      | JBool b \<Rightarrow> Text (if b then ''true'' else ''false'')
      | JNum i \<Rightarrow> Text (number_text sample_exponent i)
      | JStr s \<Rightarrow> Text (CHR 0x22 # s @ [CHR 0x22])
      | JSymbol d \<Rightarrow> NoJson
      | JObject a \<Rightarrow> (if a = 0 then Text ''{}'' else Cycle))"

definition sample_host :: host where
  "sample_host =
     \<lparr>object_to_string = (\<lambda>a. Inr ''[object Object]''),
      stringifySafe = json_stringify_safe sample_plain,
      addListener_returns = (\<lambda>c. EmitterItself),
      exponent_notation = sample_exponent\<rparr>"

definition development :: env where
  "development = \<lparr>production = False, has_window = True\<rparr>"

section \<open>The key: the code against the specification's wording\<close>

lemma array_get_drop:
  "(case drop k xs of [] \<Rightarrow> JUndefined | a # _ \<Rightarrow> a) = array_get xs k"
proof (cases "k < length xs")
  case True
  then show ?thesis by (simp add: array_get_def Cons_nth_drop_Suc[symmetric])
next
  case False
  then show ?thesis by (simp add: array_get_def)
qed

text \<open>
  The replacer of \<^verbatim>\<open>sprintf\<close>, started at index \<open>k\<close>, against the left-to-right reading
  that starts with the arguments from \<open>k\<close> on. Only the arguments that a placeholder
  reaches are read, so the array may be cut behind them.
\<close>

lemma replace_spec_substitute:
  "(\<And>i. k \<le> i \<Longrightarrow> i < k + length (matches_pct_s f) \<Longrightarrow> array_get A i = array_get xs i) \<Longrightarrow>
   replace_pct_s h f (\<lambda>match index. (array_get A index, Suc index)) k =
     (case spec_substitute h f (drop k xs) of Inl e \<Rightarrow> Inl e | Inr (s, l) \<Rightarrow> Inr s)"
proof (induction f arbitrary: k rule: matches_pct_s.induct)
  case 1
  then show ?case by simp
next
  case (2 c)
  then show ?case by simp
next
  case (3 c d cs)
  show ?case
  proof (cases "c = CHR ''%'' \<and> d = CHR ''s''")
    case True
    have a: "array_get A k = array_get xs k"
      using 3(3)[of k] True by simp
    have ih: "replace_pct_s h cs (\<lambda>match index. (array_get A index, Suc index)) (Suc k) =
       (case spec_substitute h cs (drop (Suc k) xs) of Inl e \<Rightarrow> Inl e | Inr (s, l) \<Rightarrow> Inr s)"
      using 3(1)[OF True, of "Suc k"] 3(3) True by simp
    have t: "tl (drop k xs) = drop (Suc k) xs"
      by (simp add: drop_Suc tl_drop)
    show ?thesis using True
      by (simp add: array_get_drop a ih t split: sum.splits prod.splits)
  next
    case False
    have ih: "replace_pct_s h (d # cs) (\<lambda>match index. (array_get A index, Suc index)) k =
       (case spec_substitute h (d # cs) (drop k xs) of Inl e \<Rightarrow> Inl e | Inr (s, l) \<Rightarrow> Inr s)"
      using 3(2)[OF False, of k] 3(3) False by simp
    show ?thesis
      unfolding replace_pct_s.simps spec_substitute.simps if_not_P[OF False] ih
      by (simp split: sum.splits prod.splits)
  qed
qed

text \<open>The arguments left over are those behind the first \<open>argCount\<close>.\<close>

lemma spec_substitute_left:
  "(case spec_substitute h f ys of
      Inl e \<Rightarrow> True
    | Inr r \<Rightarrow> snd r = drop (length (matches_pct_s f)) ys)"
proof (induction f arbitrary: ys rule: matches_pct_s.induct)
  case 1
  then show ?case by simp
next
  case (2 c)
  then show ?case by simp
next
  case (3 c d cs)
  show ?case
  proof (cases "c = CHR ''%'' \<and> d = CHR ''s''")
    case True
    show ?thesis using True 3(1)[OF True, of "tl ys"]
      by (auto simp: drop_Suc split: sum.splits prod.splits)
  next
    case False
    show ?thesis using 3(2)[OF False, of ys]
      unfolding matches_pct_s.simps spec_substitute.simps if_not_P[OF False]
      by (auto split: sum.splits prod.splits)
  qed
qed

lemma join_space_Cons:
  "join_space (Some s # vs) = s @ concat (map (\<lambda>v. CHR '' '' # join_element v) vs)"
  by (induction vs arbitrary: s rule: join_space.induct) auto

lemma map_stringifySafe_spec_trailing:
  "(case map_stringifySafe h ys of
      Inl e \<Rightarrow> Inl e
    | Inr vs \<Rightarrow> Inr (concat (map (\<lambda>v. CHR '' '' # join_element v) vs))) = spec_trailing h ys"
  by (induction ys) (auto simp: spec_safe_string_def split: sum.splits option.splits)

lemma argCount_matches:
  "length (case match_pct_s f of None \<Rightarrow> [] | Some ms \<Rightarrow> ms) = length (matches_pct_s f)"
  by (simp add: match_pct_s_def split: list.splits)

lemma warning_key_no_arguments: "warning_key h [] = spec_key h JUndefined []"
  by (simp add: warning_key_def spec_key_def sprintf_def match_pct_s_def)

lemma warning_key_spec_key: "warning_key h (format # args) = spec_key h format args"
proof (cases "js_String h format")
  case (Inl e)
  then show ?thesis by (simp add: warning_key_def spec_key_def)
next
  case (Inr f)
  let ?n = "length (matches_pct_s f)"
  have s: "sprintf h f (take ?n args) =
     (case spec_substitute h f args of Inl e \<Rightarrow> Inl e | Inr (s, l) \<Rightarrow> Inr s)"
    unfolding sprintf_def using replace_spec_substitute[of 0 f "take ?n args" args h]
    by (simp add: array_get_def)
  have l: "(case spec_substitute h f args of Inl e \<Rightarrow> True | Inr r \<Rightarrow> snd r = drop ?n args)"
    by (rule spec_substitute_left)
  show ?thesis
  proof (cases "spec_substitute h f args")
    case (Inl e)
    then show ?thesis using Inr s
      by (simp add: warning_key_def spec_key_def argCount_matches)
  next
    case (Inr r)
    obtain formatted left where r: "r = (formatted, left)" by (cases r)
    have left: "left = drop ?n args" using l Inr r by simp
    show ?thesis
      using \<open>js_String h format = Inr f\<close> Inr r s left
        map_stringifySafe_spec_trailing[of h "drop ?n args", symmetric]
      by (simp add: warning_key_def spec_key_def argCount_matches join_space_Cons
          split: sum.splits)
  qed
qed

lemma warning_key_index_no_trailing:
  "warning_key_index h [format] = warning_key h [format]"
  by (simp add: warning_key_index_def warning_key_def Let_def split: sum.splits)

lemma map_stringifySafe_safe:
  "map_stringifySafe (h\<lparr>stringifySafe := json_stringify_safe plain\<rparr>) ys =
     Inr (map (\<lambda>a. serialized (plain a)) ys)"
  by (induction ys) (simp_all add: json_stringify_safe_def)

lemma map_stringifySafe_index_throws:
  "ys \<noteq> [] \<Longrightarrow>
   map_stringifySafe_index (h\<lparr>stringifySafe := json_stringify_safe plain\<rparr>) array index ys
     = Inl TypeError"
  by (cases ys) (simp_all add: json_stringify_safe_def)

text \<open>
  In the older copy every call that has a trailing argument throws, once the formatted
  string is there.
\<close>

lemma warning_key_index_trailing:
  assumes "js_String (h\<lparr>stringifySafe := json_stringify_safe plain\<rparr>) format = Inr f"
    and "sprintf (h\<lparr>stringifySafe := json_stringify_safe plain\<rparr>) f
           (take (length (matches_pct_s f)) args) = Inr formatted"
    and "drop (length (matches_pct_s f)) args \<noteq> []"
  shows "warning_key_index (h\<lparr>stringifySafe := json_stringify_safe plain\<rparr>) (format # args)
           = Inl TypeError"
  using assms map_stringifySafe_index_throws[OF assms(3), where h = h and plain = plain and index = 0]
  by (simp add: warning_key_index_def argCount_matches)

lemma plain_format_key:
  "warning_key (h\<lparr>stringifySafe := json_stringify_safe plain\<rparr>) [JStr ''a'', v]
     = Inr (''a '' @ join_element (serialized (plain v)))"
  by (simp add: warning_key_def match_pct_s_def sprintf_def json_stringify_safe_def)

lemma plain_format_key_index:
  "warning_key_index (h\<lparr>stringifySafe := json_stringify_safe plain\<rparr>) [JStr ''a'', v]
     = Inl TypeError"
  by (simp add: warning_key_index_def match_pct_s_def sprintf_def json_stringify_safe_def)

text \<open>
  Claim C1, in both copies of \<^verbatim>\<open>updateWarningMap\<close>. In src/common.js the key is the one the
  specification describes, for every call: in \<^verbatim>\<open>String(format)\<close> every \<^verbatim>\<open>%s\<close> is replaced, in
  order, by the next leading argument coerced to a string (by \<^verbatim>\<open>undefined\<close> where no
  argument is left), and each remaining argument is serialized and appended after a space;
  a call without arguments has the format \<^verbatim>\<open>undefined\<close>; an exception of a coercion or of
  the serializer is the result on both sides. The older copy (index.js at the top of the
  repository) computes the same key for a call that has the format alone. For a call
  with a trailing argument it does not: with the serializer the module requires,
  \<^verbatim>\<open>updateWarningMap('a', v)\<close> has the key \<^verbatim>\<open>a\<close>, a space and the serialized \<open>v\<close> in
  src/common.js, and throws TypeError in the older copy, whatever \<open>v\<close> is.
\<close>

theorem C1_older_copy_throws_on_trailing_argument:
  "warning_key h (format # args) = spec_key h format args
   \<and> warning_key h [] = spec_key h JUndefined []
   \<and> warning_key_index h [format] = spec_key h format []
   \<and> warning_key (h\<lparr>stringifySafe := json_stringify_safe plain\<rparr>) [JStr ''a'', v]
       = Inr (''a '' @ join_element (serialized (plain v)))
   \<and> warning_key_index (h\<lparr>stringifySafe := json_stringify_safe plain\<rparr>) [JStr ''a'', v]
       = Inl TypeError"
proof (intro conjI)
  show "warning_key h (format # args) = spec_key h format args"
    by (rule warning_key_spec_key)
  show "warning_key h [] = spec_key h JUndefined []"
    by (rule warning_key_no_arguments)
  show "warning_key_index h [format] = spec_key h format []"
    by (simp only: warning_key_index_no_trailing warning_key_spec_key)
  show "warning_key (h\<lparr>stringifySafe := json_stringify_safe plain\<rparr>) [JStr ''a'', v]
       = Inr (''a '' @ join_element (serialized (plain v)))"
    by (rule plain_format_key)
  show "warning_key_index (h\<lparr>stringifySafe := json_stringify_safe plain\<rparr>) [JStr ''a'', v]
       = Inl TypeError"
    by (rule plain_format_key_index)
qed

text \<open>
  The two copies at work on the sample host: a call with two placeholders, an argument
  for each and four arguments behind them, in src/common.js; in the older copy a call
  whose arguments all fill placeholders, and the same call with one argument more.
\<close>

lemma key_examples:
  "warning_key sample_host
     [JStr ''%s items %s'', JNum 12, JObject 0, JObject 1, JUndefined, JNull, JStr ''x'']
     = Inr (''12 items [object Object] [Circular ~]  null '' @ [CHR 0x22, CHR ''x'', CHR 0x22])"
  "warning_key_index sample_host [JStr ''%s items'', JNum 1] = Inr ''1 items''"
  "warning_key_index sample_host [JStr ''%s items'', JNum 1, JNull] = Inl TypeError"
  by code_simp+

section \<open>What an event does to the map\<close>

lemma update_component_fields [simp]:
  "warningMap (update_component c f w) = warningMap w"
  "listeners (update_component c f w) = listeners w"
  "immediates (update_component c f w) = immediates w"
  "deliveries (update_component c f w) = deliveries w"
  "console_out (update_component c f w) = console_out w"
  "length (components (update_component c f w)) = length (components w)"
  by (simp_all add: update_component_def)

lemma warning_listener_fields [simp]:
  "warningMap (warning_listener c w) = warningMap w"
  "listeners (warning_listener c w) = listeners w"
  "deliveries (warning_listener c w) = deliveries w"
  "console_out (warning_listener c w) = console_out w"
  "length (components (warning_listener c w)) = length (components w)"
  by (simp_all add: warning_listener_def)

lemma call_listeners_fields [simp]:
  "warningMap (call_listeners cs w) = warningMap w"
  "listeners (call_listeners cs w) = listeners w"
  "deliveries (call_listeners cs w) = deliveries w"
  "console_out (call_listeners cs w) = console_out w"
  "length (components (call_listeners cs w)) = length (components w)"
  by (induction cs arbitrary: w) simp_all

lemma emit_fields [simp]:
  "warningMap (emit w) = warningMap w"
  "listeners (emit w) = listeners w"
  "deliveries (emit w) = deliveries w"
  "console_out (emit w) = console_out w"
  "length (components (emit w)) = length (components w)"
  by (simp_all add: emit_def)

lemma immediate_callback_fields [simp]:
  "warningMap (immediate_callback c w) = warningMap w"
  "listeners (immediate_callback c w) = listeners w"
  "immediates (immediate_callback c w) = immediates w"
  "console_out (immediate_callback c w) = console_out w"
  "length (components (immediate_callback c w)) = length (components w)"
  by (simp_all add: immediate_callback_def)

lemma run_callbacks_fields [simp]:
  "warningMap (run_callbacks cs w) = warningMap w"
  "listeners (run_callbacks cs w) = listeners w"
  "immediates (run_callbacks cs w) = immediates w"
  "console_out (run_callbacks cs w) = console_out w"
  "length (components (run_callbacks cs w)) = length (components w)"
  by (induction cs arbitrary: w) simp_all

lemma warningMap_updateWarningMap:
  "warningMap (snd (updateWarningMap h a w)) =
     (case warning_key h a of
        Inl e \<Rightarrow> warningMap w
      | Inr k \<Rightarrow> Map_set k (warning_count k (warningMap w) + 1) (warningMap w))"
  by (simp add: updateWarningMap_def Let_def split: sum.splits)

lemma warningMap_original [simp]: "warningMap (original m a w) = warningMap w"
  by (simp add: original_def)

lemma warningMap_dismissWarning [simp]:
  "warningMap (dismissWarning c k w) = dismiss_map k (warningMap w)"
  by (simp add: dismissWarning_def)

lemma warningMap_mount [simp]: "warningMap (mount h w) = warningMap w"
  by (simp add: mount_def componentDidMount_def constructor_def)

lemma warningMap_componentWillUnmount [simp]:
  "warningMap (snd (componentWillUnmount c w)) = warningMap w"
  by (simp add: componentWillUnmount_def remove_listener_def
      split: option.splits listener_handle.splits)

lemma warningMap_run_immediates [simp]: "warningMap (run_immediates w) = warningMap w"
  by (simp add: run_immediates_def)

text \<open>What one event can do to the map.\<close>

lemma warningMap_step:
  "warningMap (step h e ev w) = warningMap w
   \<or> (\<exists>k. warningMap (step h e ev w) = Map_set k (warning_count k (warningMap w) + 1) (warningMap w))
   \<or> (\<exists>k. warningMap (step h e ev w) = dismiss_map k (warningMap w))"
proof (cases ev)
  case (Record a)
  then show ?thesis by (auto simp: warningMap_updateWarningMap split: sum.splits)
next
  case (ConsoleError a)
  then show ?thesis
    by (auto simp: console_error_def wrapped_error_def Let_def warningMap_updateWarningMap
        split: sum.splits)
next
  case (ConsoleWarn a)
  then show ?thesis
    by (auto simp: console_warn_def wrapped_warn_def Let_def warningMap_updateWarningMap
        split: sum.splits)
qed auto

lemma Map_has_iff: "Map_has k m \<longleftrightarrow> k \<in> fst ` set m"
  by (induction m) auto

lemma set_Map_set: "set (Map_set k v m) \<subseteq> insert (k, v) (set m)"
  by (induction m) (auto split: if_splits)

lemma keys_Map_set: "map fst (Map_set k v m) = (if Map_has k m then map fst m else map fst m @ [k])"
  by (induction m) (auto split: if_splits)

lemma map_ok_Map_set: "map_ok m \<Longrightarrow> 1 \<le> v \<Longrightarrow> map_ok (Map_set k v m)"
  using set_Map_set[of k v m]
  by (auto simp: map_ok_def keys_Map_set Map_has_iff)

lemma filter_absent_key: "k \<notin> fst ` set m \<Longrightarrow> filter (\<lambda>entry. fst entry \<noteq> k) m = m"
  by (induction m) auto

lemma Map_delete_filter: "distinct (map fst m) \<Longrightarrow> Map_delete k m = filter (\<lambda>entry. fst entry \<noteq> k) m"
  by (induction m) (auto simp: filter_absent_key)

lemma map_ok_dismiss_map: "map_ok m \<Longrightarrow> map_ok (dismiss_map k m)"
  by (cases k) (auto simp: map_ok_def dismiss_map_def Map_clear_def Map_delete_filter distinct_map_filter)

lemma map_ok_step: "map_ok (warningMap w) \<Longrightarrow> map_ok (warningMap (step h e ev w))"
  using warningMap_step[of h e ev w]
  by (auto simp: map_ok_Map_set map_ok_dismiss_map)

lemma map_ok_run: "map_ok (warningMap w) \<Longrightarrow> map_ok (warningMap (run h e evs w))"
  by (induction evs arbitrary: w) (simp_all add: map_ok_step)

lemma map_ok_reachable: "map_ok (warningMap (run h e evs initial_world))"
  by (rule map_ok_run) (simp add: map_ok_def initial_world_def)


lemma warning_count_Cons:
  "warning_count k ((k', c) # m) = (if k' = k then c else warning_count k m)"
  by (simp add: warning_count_def)

lemma warning_count_absent: "\<not> Map_has k m \<Longrightarrow> warning_count k m = 0"
  by (simp add: warning_count_def)

lemma Map_set_absent: "\<not> Map_has k m \<Longrightarrow> Map_set k v m = m @ [(k, v)]"
  by (induction m) (auto split: if_splits)

lemma Map_set_present:
  "distinct (map fst m) \<Longrightarrow> Map_has k m \<Longrightarrow>
   Map_set k (warning_count k m + 1) m =
     map (\<lambda>entry. if fst entry = k then (fst entry, snd entry + 1) else entry) m"
proof (induction m)
  case Nil
  then show ?case by simp
next
  case (Cons a m)
  obtain k' c where a: "a = (k', c)" by (cases a)
  show ?case
  proof (cases "k' = k")
    case True
    then have "k \<notin> fst ` set m" using Cons.prems a by auto
    then have "map (\<lambda>entry. if fst entry = k then (fst entry, snd entry + 1) else entry) m = m"
      by (induction m) auto
    then show ?thesis using True a by (simp add: warning_count_Cons)
  next
    case False
    then show ?thesis using Cons a by (simp add: warning_count_Cons)
  qed
qed

lemma Map_has_Map_set: "Map_has k (Map_set k v m)"
  by (induction m) auto

lemma warning_count_Map_set: "warning_count k (Map_set k v m) = v"
  by (induction m) (auto simp: warning_count_Cons)

lemma only_entry:
  "distinct (map fst m) \<Longrightarrow> Map_has k m \<Longrightarrow>
   filter (\<lambda>entry. fst entry = k) m = [(k, warning_count k m)]"
proof (induction m)
  case Nil
  then show ?case by simp
next
  case (Cons a m)
  obtain k' c where a: "a = (k', c)" by (cases a)
  show ?case
  proof (cases "k' = k")
    case True
    then have "k \<notin> fst ` set m" using Cons.prems a by auto
    then have "filter (\<lambda>entry. fst entry = k) m = []"
      by (induction m) auto
    then show ?thesis using True a by (simp add: warning_count_Cons)
  next
    case False
    then show ?thesis using Cons a by (simp add: warning_count_Cons)
  qed
qed

lemma record_run:
  "warning_key h a = Inr k \<Longrightarrow>
   warning_count k (warningMap (run h e (replicate n (Record a)) w)) = warning_count k (warningMap w) + n
   \<and> (0 < n \<longrightarrow> Map_has k (warningMap (run h e (replicate n (Record a)) w)))"
proof (induction n arbitrary: w)
  case 0
  then show ?case by simp
next
  case (Suc n)
  let ?w1 = "snd (updateWarningMap h a w)"
  have m1: "warningMap ?w1 = Map_set k (warning_count k (warningMap w) + 1) (warningMap w)"
    using Suc.prems by (simp add: warningMap_updateWarningMap)
  have c1: "warning_count k (warningMap ?w1) = warning_count k (warningMap w) + 1"
    by (simp add: m1 warning_count_Map_set)
  have h1: "Map_has k (warningMap ?w1)"
    by (simp add: m1 Map_has_Map_set)
  have ih: "warning_count k (warningMap (run h e (replicate n (Record a)) ?w1)) =
      warning_count k (warningMap ?w1) + n
      \<and> (0 < n \<longrightarrow> Map_has k (warningMap (run h e (replicate n (Record a)) ?w1)))"
    using Suc.IH[OF Suc.prems, of ?w1] .
  show ?case
  proof (cases n)
    case 0
    then show ?thesis using c1 h1 by simp
  next
    case (Suc n')
    then show ?thesis using ih c1 by simp
  qed
qed

text \<open>
  Claim C2. In every state the module can reach, a call of \<^verbatim>\<open>updateWarningMap\<close> whose key
  is \<open>k\<close> adds one to the count of \<open>k\<close> where \<open>k\<close> is in the map, leaving every other entry
  and the order as they are, and otherwise appends \<open>k\<close> with count 1 behind the entries
  there are. After \<open>n > 0\<close> such calls in a row the map holds exactly one entry for \<open>k\<close>,
  and its count is the count before (0 for a key that was absent) plus \<open>n\<close>.
\<close>

theorem C2_record_counts:
  assumes "w = run h e evs initial_world" and "warning_key h arguments = Inr k"
  shows "(Map_has k (warningMap w) \<longrightarrow>
            warningMap (snd (updateWarningMap h arguments w)) =
              map (\<lambda>entry. if fst entry = k then (fst entry, snd entry + 1) else entry) (warningMap w))
       \<and> (\<not> Map_has k (warningMap w) \<longrightarrow>
            warningMap (snd (updateWarningMap h arguments w)) = warningMap w @ [(k, 1)])
       \<and> (0 < n \<longrightarrow>
            filter (\<lambda>entry. fst entry = k) (warningMap (run h e (replicate n (Record arguments)) w))
              = [(k, warning_count k (warningMap w) + n)])"
proof -
  have ok: "map_ok (warningMap w)"
    using assms(1) map_ok_reachable by simp
  then have d: "distinct (map fst (warningMap w))"
    by (simp add: map_ok_def)
  have m: "warningMap (snd (updateWarningMap h arguments w)) =
      Map_set k (warning_count k (warningMap w) + 1) (warningMap w)"
    using assms(2) by (simp add: warningMap_updateWarningMap)
  have p1: "Map_has k (warningMap w) \<longrightarrow>
            warningMap (snd (updateWarningMap h arguments w)) =
              map (\<lambda>entry. if fst entry = k then (fst entry, snd entry + 1) else entry) (warningMap w)"
    using m d Map_set_present by simp
  have p2: "\<not> Map_has k (warningMap w) \<longrightarrow>
            warningMap (snd (updateWarningMap h arguments w)) = warningMap w @ [(k, 1)]"
    using m by (simp add: Map_set_absent warning_count_absent)
  have p3: "0 < n \<longrightarrow>
            filter (\<lambda>entry. fst entry = k) (warningMap (run h e (replicate n (Record arguments)) w))
              = [(k, warning_count k (warningMap w) + n)]"
  proof
    assume n: "0 < n"
    let ?w' = "run h e (replicate n (Record arguments)) w"
    have "map_ok (warningMap ?w')" using ok by (rule map_ok_run)
    then have d': "distinct (map fst (warningMap ?w'))" by (simp add: map_ok_def)
    have "Map_has k (warningMap ?w')" and "warning_count k (warningMap ?w') = warning_count k (warningMap w) + n"
      using record_run[OF assms(2), of e n w] n by simp_all
    then show "filter (\<lambda>entry. fst entry = k) (warningMap ?w') = [(k, warning_count k (warningMap w) + n)]"
      using only_entry[OF d'] by simp
  qed
  show ?thesis using p1 p2 p3 by blast
qed


text \<open>
  The example of the specification, started with another warning already in the map: the
  first call with \<^verbatim>\<open>'%s items'\<close> and 1 appends its key, and two such calls leave one entry
  with count 2.
\<close>

theorem C2_record_counts_witness:
  "warningMap (snd (updateWarningMap sample_host [JStr ''%s items'', JNum 1]
       (run sample_host development [Record [JStr ''a'']] initial_world)))
     = [(''a'', 1), (''1 items'', 1)]
   \<and> filter (\<lambda>entry. fst entry = ''1 items'')
         (warningMap (run sample_host development (replicate 2 (Record [JStr ''%s items'', JNum 1]))
            (run sample_host development [Record [JStr ''a'']] initial_world)))
     = [(''1 items'', 2)]"
proof -
  let ?w = "run sample_host development [Record [JStr ''a'']] initial_world"
  have k: "warning_key sample_host [JStr ''%s items'', JNum 1] = Inr ''1 items''"
    by code_simp
  have m: "warningMap ?w = [(''a'', 1)]"
    by code_simp
  have nh: "\<not> Map_has ''1 items'' (warningMap ?w)"
    unfolding m by simp
  have c: "warning_count ''1 items'' (warningMap ?w) = 0"
    unfolding m by (simp add: warning_count_def)
  show ?thesis
    using C2_record_counts[OF refl k, of development "[Record [JStr ''a'']]" 2] nh c m
    by simp
qed

lemma not_Map_has_dismiss: "distinct (map fst m) \<Longrightarrow> \<not> Map_has k (dismiss_map (Some k) m)"
  by (auto simp: dismiss_map_def Map_clear_def Map_delete_filter Map_has_iff)

text \<open>
  Claim C3. In every state the module can reach, by calls of \<^verbatim>\<open>updateWarningMap\<close>, of the
  console functions and of \<^verbatim>\<open>dismissWarning\<close> (with a key or with \<^verbatim>\<open>null\<close>), mountings,
  unmountings and turns of the loop, every entry of the map has a count of at least 1.
  After \<^verbatim>\<open>dismissWarning(k)\<close> the key \<open>k\<close> is not in the map at all, and after
  \<^verbatim>\<open>dismissWarning(null)\<close> the map is empty.
\<close>

theorem C3_counts_positive:
  "(\<forall>entry \<in> set (warningMap (run h e evs initial_world)). 1 \<le> snd entry)
   \<and> \<not> Map_has k (warningMap (dismissWarning c (Some k) (run h e evs initial_world)))
   \<and> warningMap (dismissWarning c None (run h e evs initial_world)) = []"
proof -
  let ?m = "warningMap (run h e evs initial_world)"
  have ok: "map_ok ?m" by (rule map_ok_reachable)
  then have "\<forall>entry \<in> set ?m. 1 \<le> snd entry"
    by (simp add: map_ok_def)
  moreover have "\<not> Map_has k (dismiss_map (Some k) ?m)"
    using ok by (simp add: map_ok_def not_Map_has_dismiss)
  moreover have "dismiss_map None ?m = []"
    by (simp add: dismiss_map_def Map_clear_def)
  ultimately show ?thesis by simp
qed

text \<open>
  Three calls, two of them with the same key, and the dismissal of that key.
\<close>

theorem C3_counts_positive_witness:
  "(''a'', 2) \<in> set (warningMap (run sample_host development
       [Record [JStr ''a''], Record [JStr ''a''], Record [JStr ''b'']] initial_world))
   \<and> 1 \<le> snd (''a'', 2::nat)
   \<and> \<not> Map_has ''a'' (warningMap (dismissWarning 0 (Some ''a'') (run sample_host development
       [Record [JStr ''a''], Record [JStr ''a''], Record [JStr ''b'']] initial_world)))"
proof -
  let ?w = "run sample_host development
       [Record [JStr ''a''], Record [JStr ''a''], Record [JStr ''b'']] initial_world"
  have m: "warningMap ?w = [(''a'', 2), (''b'', 1)]"
    by code_simp
  have "(''a'', 2) \<in> set (warningMap ?w)"
    unfolding m by simp
  then show ?thesis
    using C3_counts_positive[of sample_host development
        "[Record [JStr ''a''], Record [JStr ''a''], Record [JStr ''b'']]" "''a''" 0]
    by blast
qed


lemma warning_key_empty: "warning_key h [JStr []] = Inr []"
  by (simp add: warning_key_def match_pct_s_def sprintf_def)

text \<open>
  Claim C10. \<^verbatim>\<open>dismissWarning\<close> tells its two behaviours apart by the truthiness of its
  argument. The empty string is a key that \<^verbatim>\<open>updateWarningMap('')\<close> produces, and it is
  falsy: dismissing it empties the map. Dismissing a key that is not empty removes the
  entry of that key and nothing else.
\<close>

theorem C10_empty_key_clears_all:
  "warning_key h [JStr []] = Inr []
   \<and> warningMap (dismissWarning c (Some []) w) = []
   \<and> (k \<noteq> [] \<longrightarrow>
        warningMap (dismissWarning c (Some k) (run h e evs initial_world)) =
          filter (\<lambda>entry. fst entry \<noteq> k) (warningMap (run h e evs initial_world)))"
  using map_ok_reachable[of h e evs]
  by (simp add: warning_key_empty dismiss_map_def Map_clear_def map_ok_def Map_delete_filter)

text \<open>
  Two warnings, one with the empty key: dismissing the empty key removes both, dismissing
  the other key removes that one alone.
\<close>

theorem C10_empty_key_clears_all_witness:
  "warningMap (run sample_host development [Record [JStr []], Record [JStr ''b'']] initial_world)
     = [([], 1), (''b'', 1)]
   \<and> warningMap (dismissWarning 0 (Some [])
        (run sample_host development [Record [JStr []], Record [JStr ''b'']] initial_world)) = []
   \<and> warningMap (dismissWarning 0 (Some ''b'')
        (run sample_host development [Record [JStr []], Record [JStr ''b'']] initial_world))
     = [([], 1)]"
proof -
  let ?w = "run sample_host development [Record [JStr []], Record [JStr ''b'']] initial_world"
  have m: "warningMap ?w = [([], 1), (''b'', 1)]"
    by code_simp
  show ?thesis
    using C10_empty_key_clears_all[of sample_host 0 ?w "''b''" development
        "[Record [JStr []], Record [JStr ''b'']]"] m
    by simp
qed

text \<open>
  Claim C4, evaluated. After \<^verbatim>\<open>updateWarningMap('a')\<close>, \<^verbatim>\<open>updateWarningMap('b')\<close> and
  \<^verbatim>\<open>dismissWarning('a')\<close> the entry of \<^verbatim>\<open>'b'\<close> with count 1 is what remains. After
  \<^verbatim>\<open>updateWarningMap('')\<close>, \<^verbatim>\<open>updateWarningMap('b')\<close> and \<^verbatim>\<open>dismissWarning('')\<close> nothing
  remains: the entry of \<^verbatim>\<open>'b'\<close> is gone as well.
\<close>

theorem C4_dismiss_of_empty_key:
  "warningMap (run h e [Mount, Record [JStr ''a''], Record [JStr ''b''], Dismiss 0 (Some ''a'')]
      initial_world) = [(''b'', 1)]
   \<and> warningMap (run h e [Mount, Record [JStr []], Record [JStr ''b'']] initial_world)
      = [([], 1), (''b'', 1)]
   \<and> warningMap (run h e [Mount, Record [JStr []], Record [JStr ''b''], Dismiss 0 (Some [])]
      initial_world) = []"
  by (simp add: warningMap_updateWarningMap warning_key_def match_pct_s_def sprintf_def
      warning_count_def dismiss_map_def Map_clear_def initial_world_def)


section \<open>The ignore filter, the console wrappers and the failures of the key\<close>

lemma startsWith_prefix: "startsWith s p \<longleftrightarrow> prefix p s"
  by (induction s p rule: startsWith.induct) auto

lemma array_some_iff: "array_some P xs \<longleftrightarrow> (\<exists>x \<in> set xs. P x)"
  by (induction xs) auto

text \<open>
  Claim C9. \<^verbatim>\<open>isWarningIgnored\<close> is a function of the key and of the ignore list as it is
  when the call is made. For a list of strings it is true exactly when one of them is a
  prefix of the key, character for character; nothing in a prefix is a pattern and case
  matters. When \<^verbatim>\<open>console.ignoredYellowBox\<close> is not an array, no key is ignored.
\<close>

theorem C9_isWarningIgnored_prefix:
  "(isWarningIgnored (Some ignored) key \<longleftrightarrow> (\<exists>p \<in> set ignored. \<exists>rest. key = p @ rest))
   \<and> \<not> isWarningIgnored None key"
  by (auto simp: isWarningIgnored_def array_some_iff startsWith_prefix prefix_def)

text \<open>
  The examples of the specification, a prefix in the wrong case, and prefixes that would
  match as patterns only.
\<close>

theorem C9_isWarningIgnored_examples:
  "isWarningIgnored (Some [''Warning: '']) ''Warning: foo''
   \<and> \<not> isWarningIgnored (Some [''Warning: '']) ''foo''
   \<and> \<not> isWarningIgnored (Some [''warning: '']) ''Warning: foo''
   \<and> \<not> isWarningIgnored (Some [''.*'', ''W?'']) ''Warning: foo''"
proof -
  have "\<exists>p \<in> set [''Warning: '']. \<exists>rest. ''Warning: foo'' = p @ rest"
    by simp
  then have "isWarningIgnored (Some [''Warning: '']) ''Warning: foo''"
    using C9_isWarningIgnored_prefix[of "[''Warning: '']" "''Warning: foo''"] by blast
  moreover have "\<not> isWarningIgnored (Some [''Warning: '']) ''foo''"
    using C9_isWarningIgnored_prefix[of "[''Warning: '']" "''foo''"] by simp
  moreover have "\<not> isWarningIgnored (Some [''warning: '']) ''Warning: foo''"
    using C9_isWarningIgnored_prefix[of "[''warning: '']" "''Warning: foo''"] by simp
  moreover have "\<not> isWarningIgnored (Some [''.*'', ''W?'']) ''Warning: foo''"
    using C9_isWarningIgnored_prefix[of "[''.*'', ''W?'']" "''Warning: foo''"] by simp
  ultimately show ?thesis by simp
qed

lemma console_out_updateWarningMap [simp]:
  "console_out (snd (updateWarningMap h a w)) = console_out w"
  by (simp add: updateWarningMap_def Let_def split: sum.splits)

lemma console_out_updateWarningMap_index [simp]:
  "console_out (snd (updateWarningMap_index h a w)) = console_out w"
  by (simp add: updateWarningMap_index_def Let_def split: sum.splits)

lemma is_warning_call_iff:
  "is_warning_call arguments \<longleftrightarrow> (\<exists>s rest. arguments = JStr s # rest \<and> prefix ''Warning: '' s)"
  by (cases arguments rule: is_warning_call.cases) (simp_all add: startsWith_prefix)

text \<open>
  Claim C5, as the code has it. Outside production mode \<^verbatim>\<open>console.error\<close> always calls the
  original with the same arguments and then calls \<^verbatim>\<open>updateWarningMap\<close> with them exactly
  when the first argument is a string that begins with \<^verbatim>\<open>Warning: \<close>. \<^verbatim>\<open>console.warn\<close> calls
  \<^verbatim>\<open>updateWarningMap\<close> with its arguments on every call; it calls the original with the same
  arguments first when a global \<^verbatim>\<open>window\<close> exists and not at all otherwise. The older copy
  of the wrapper (index.js at the top of the repository) always calls the original, and
  then the \<^verbatim>\<open>updateWarningMap\<close> of that copy.
\<close>

theorem C5_wrappers:
  assumes "\<not> production e"
  shows "console_error h e arguments w =
           (if (\<exists>s rest. arguments = JStr s # rest \<and> prefix ''Warning: '' s)
            then updateWarningMap h arguments (original OriginalError arguments w)
            else (Inr (), original OriginalError arguments w))
       \<and> console_out (snd (console_error h e arguments w)) = console_out w @ [(OriginalError, arguments)]
       \<and> console_warn h e arguments w =
           updateWarningMap h arguments (if has_window e then original OriginalWarn arguments w else w)
       \<and> console_out (snd (console_warn h e arguments w)) =
           (if has_window e then console_out w @ [(OriginalWarn, arguments)] else console_out w)
       \<and> wrapped_warn_index h arguments w =
           updateWarningMap_index h arguments (original OriginalWarn arguments w)
       \<and> console_out (snd (wrapped_warn_index h arguments w)) = console_out w @ [(OriginalWarn, arguments)]"
proof -
  have a: "console_error h e arguments w =
           (if (\<exists>s rest. arguments = JStr s # rest \<and> prefix ''Warning: '' s)
            then updateWarningMap h arguments (original OriginalError arguments w)
            else (Inr (), original OriginalError arguments w))"
    using assms is_warning_call_iff[of arguments]
    by (simp add: console_error_def wrapped_error_def Let_def del: is_warning_call.simps)
  have b: "console_out (snd (console_error h e arguments w)) = console_out w @ [(OriginalError, arguments)]"
    using assms by (simp add: console_error_def wrapped_error_def Let_def original_def)
  have c: "console_warn h e arguments w =
           updateWarningMap h arguments (if has_window e then original OriginalWarn arguments w else w)"
    using assms by (simp add: console_warn_def wrapped_warn_def Let_def)
  have d: "console_out (snd (console_warn h e arguments w)) =
           (if has_window e then console_out w @ [(OriginalWarn, arguments)] else console_out w)"
    using assms by (simp add: console_warn_def wrapped_warn_def Let_def original_def)
  have f: "wrapped_warn_index h arguments w =
           updateWarningMap_index h arguments (original OriginalWarn arguments w)"
    by (simp add: wrapped_warn_index_def)
  have g: "console_out (snd (wrapped_warn_index h arguments w)) = console_out w @ [(OriginalWarn, arguments)]"
    by (simp add: wrapped_warn_index_def original_def)
  show ?thesis using a b c d f g by blast
qed

text \<open>
  Claim C5 as stated fails: outside production mode and without a global \<^verbatim>\<open>window\<close>, a
  call of \<^verbatim>\<open>console.warn\<close> is recorded and never reaches the original \<^verbatim>\<open>console.warn\<close>.
\<close>

theorem C5_warn_not_forwarded:
  "\<not> production \<lparr>production = False, has_window = False\<rparr>
   \<and> console_out (snd (console_warn sample_host \<lparr>production = False, has_window = False\<rparr>
         [JStr ''x''] initial_world)) = []
   \<and> warningMap (snd (console_warn sample_host \<lparr>production = False, has_window = False\<rparr>
         [JStr ''x''] initial_world)) = [(''x'', 1)]"
  by code_simp

text \<open>
  The wrappers at work in a browser outside production mode.
\<close>

theorem C5_wrappers_witness:
  "\<not> production development
   \<and> console_out (snd (console_error sample_host development [JStr ''Warning: x %s'', JNum 1] initial_world))
       = [(OriginalError, [JStr ''Warning: x %s'', JNum 1])]
   \<and> warningMap (snd (console_error sample_host development [JStr ''Warning: x %s'', JNum 1] initial_world))
       = [(''Warning: x 1'', 1)]
   \<and> warningMap (snd (console_error sample_host development [JStr ''failed''] initial_world)) = []
   \<and> console_out (snd (console_warn sample_host development [JStr ''x''] initial_world))
       = [(OriginalWarn, [JStr ''x''])]"
proof -
  have p: "\<not> production development"
    by (simp add: development_def)
  have i: "console_out initial_world = []"
    by (simp add: initial_world_def)
  have a: "console_out (snd (console_error sample_host development [JStr ''Warning: x %s'', JNum 1] initial_world))
       = [(OriginalError, [JStr ''Warning: x %s'', JNum 1])]"
    using C5_wrappers[OF p, of sample_host "[JStr ''Warning: x %s'', JNum 1]" initial_world] i
    by (simp add: original_def)
  have b: "warningMap (snd (console_error sample_host development [JStr ''Warning: x %s'', JNum 1] initial_world))
       = [(''Warning: x 1'', 1)]"
    by code_simp
  have c: "warningMap (snd (console_error sample_host development [JStr ''failed''] initial_world)) = []"
    by code_simp
  have d: "console_out (snd (console_warn sample_host development [JStr ''x''] initial_world))
       = [(OriginalWarn, [JStr ''x''])]"
    by code_simp
  show ?thesis using p a b c d by blast
qed


text \<open>
  \<^verbatim>\<open>sprintf\<close> returns exactly when every argument that a placeholder reaches can be
  coerced to a string.
\<close>

lemma replace_pct_s_succeeds_iff:
  "(\<exists>r. replace_pct_s h f (\<lambda>match index. (array_get A index, Suc index)) k = Inr r) \<longleftrightarrow>
   (\<forall>i. k \<le> i \<and> i < k + length (matches_pct_s f) \<longrightarrow> (\<exists>s. ToString h (array_get A i) = Inr s))"
proof (induction f arbitrary: k rule: matches_pct_s.induct)
  case 1
  then show ?case by auto
next
  case (2 c)
  then show ?case by auto
next
  case (3 c d cs)
  show ?case
  proof (cases "c = CHR ''%'' \<and> d = CHR ''s''")
    case True
    let ?rest = "replace_pct_s h cs (\<lambda>match index. (array_get A index, Suc index)) (Suc k)"
    have ih: "(\<exists>r. ?rest = Inr r) \<longleftrightarrow>
        (\<forall>i. Suc k \<le> i \<and> i < Suc k + length (matches_pct_s cs) \<longrightarrow>
             (\<exists>s. ToString h (array_get A i) = Inr s))"
      using 3(1)[OF True, of "Suc k"] .
    have here: "(\<exists>r. replace_pct_s h (c # d # cs) (\<lambda>match index. (array_get A index, Suc index)) k = Inr r)
        \<longleftrightarrow> (\<exists>s. ToString h (array_get A k) = Inr s) \<and> (\<exists>r. ?rest = Inr r)"
      using True by (auto split: sum.splits)
    have range: "\<And>i. (k \<le> i \<and> i < k + length (matches_pct_s (c # d # cs))) \<longleftrightarrow>
        (i = k \<or> (Suc k \<le> i \<and> i < Suc k + length (matches_pct_s cs)))"
      using True by auto
    show ?thesis
      unfolding here ih range by blast
  next
    case False
    have ih: "(\<exists>r. replace_pct_s h (d # cs) (\<lambda>match index. (array_get A index, Suc index)) k = Inr r) \<longleftrightarrow>
        (\<forall>i. k \<le> i \<and> i < k + length (matches_pct_s (d # cs)) \<longrightarrow>
             (\<exists>s. ToString h (array_get A i) = Inr s))"
      using 3(2)[OF False, of k] .
    have here: "(\<exists>r. replace_pct_s h (c # d # cs) (\<lambda>match index. (array_get A index, Suc index)) k = Inr r)
        \<longleftrightarrow> (\<exists>r. replace_pct_s h (d # cs) (\<lambda>match index. (array_get A index, Suc index)) k = Inr r)"
      unfolding replace_pct_s.simps if_not_P[OF False] by (auto split: sum.splits)
    have m: "matches_pct_s (c # d # cs) = matches_pct_s (d # cs)"
      unfolding matches_pct_s.simps if_not_P[OF False] ..
    show ?thesis
      unfolding here ih m ..
  qed
qed

lemma sprintf_succeeds_iff:
  "(\<exists>formatted. sprintf h f (take (length (matches_pct_s f)) args) = Inr formatted) \<longleftrightarrow>
   (\<forall>i < length (matches_pct_s f). \<exists>s. ToString h (array_get args i) = Inr s)"
proof -
  let ?n = "length (matches_pct_s f)"
  have "\<And>i. i < ?n \<Longrightarrow> array_get (take ?n args) i = array_get args i"
    by (simp add: array_get_def)
  then have "(\<forall>i. 0 \<le> i \<and> i < 0 + ?n \<longrightarrow> (\<exists>s. ToString h (array_get (take ?n args) i) = Inr s))
      \<longleftrightarrow> (\<forall>i < ?n. \<exists>s. ToString h (array_get args i) = Inr s)"
    by simp
  then show ?thesis
    unfolding sprintf_def using replace_pct_s_succeeds_iff[of h f "take ?n args" 0] by simp
qed

text \<open>
  The key with the serializer of the specification: nothing behind the formatted string
  can fail.
\<close>

lemma contribution_serialized:
  "(case r of Text s \<Rightarrow> s | NoJson \<Rightarrow> [] | Cycle \<Rightarrow> placeholder | Fault e \<Rightarrow> placeholder)
     = join_element (serialized r)"
  by (simp add: serialized_def split: plain_result.splits)

lemma warning_key_safe:
  "warning_key (h\<lparr>stringifySafe := json_stringify_safe plain\<rparr>) (format # args) =
     (case js_String (h\<lparr>stringifySafe := json_stringify_safe plain\<rparr>) format of
        Inl e \<Rightarrow> Inl e
      | Inr f \<Rightarrow>
         (case sprintf (h\<lparr>stringifySafe := json_stringify_safe plain\<rparr>) f
                 (take (length (matches_pct_s f)) args) of
            Inl e \<Rightarrow> Inl e
          | Inr formatted \<Rightarrow>
             Inr (formatted @
                  concat (map (\<lambda>a. CHR '' '' #
                                 (case plain a of
                                    Text s \<Rightarrow> s
                                  | NoJson \<Rightarrow> []
                                  | Cycle \<Rightarrow> placeholder
                                  | Fault e \<Rightarrow> placeholder))
                              (drop (length (matches_pct_s f)) args)))))"
  by (simp add: warning_key_def argCount_matches map_stringifySafe_safe join_space_Cons o_def
      contribution_serialized split: sum.splits)

lemma updateWarningMap_returns:
  "fst (updateWarningMap h arguments w) =
     (case warning_key h arguments of Inl e \<Rightarrow> Inl e | Inr k \<Rightarrow> Inr ())"
  by (simp add: updateWarningMap_def Let_def split: sum.splits)

text \<open>
  Claim C8, as the code has it. Let the serializer be as the specification asks: on a
  reference cycle or any other fault of a trailing argument a fixed placeholder token
  stands for that argument, and no exception leaves it. Then \<^verbatim>\<open>updateWarningMap\<close> returns
  normally exactly when \<^verbatim>\<open>String(format)\<close> returns and the string coercion of every
  argument that fills a placeholder returns; no trailing argument, circular or not, makes
  it throw. When it returns, the key is the formatted string followed, for each trailing
  argument, by a space and the serialized argument: its text, nothing for a value
  without a JSON form, and the placeholder for a cycle or a fault. When \<^verbatim>\<open>String(format)\<close>
  or \<^verbatim>\<open>sprintf\<close> throws, that exception leaves \<^verbatim>\<open>updateWarningMap\<close>: the function handles
  none itself.
\<close>

theorem C8_key_construction_completes:
  assumes "hs = h\<lparr>stringifySafe := json_stringify_safe plain\<rparr>"
  shows "(fst (updateWarningMap hs (format # args) w) = Inr () \<longleftrightarrow>
            (\<exists>f. js_String hs format = Inr f
                \<and> (\<forall>i < length (matches_pct_s f). \<exists>s. ToString hs (array_get args i) = Inr s)))
       \<and> (js_String hs format = Inr f \<longrightarrow>
            (\<forall>i < length (matches_pct_s f). \<exists>s. ToString hs (array_get args i) = Inr s) \<longrightarrow>
            (\<exists>formatted.
                sprintf hs f (take (length (matches_pct_s f)) args) = Inr formatted
              \<and> warning_key hs (format # args) =
                  Inr (formatted @
                       concat (map (\<lambda>a. CHR '' '' #
                                      (case plain a of
                                         Text s \<Rightarrow> s
                                       | NoJson \<Rightarrow> []
                                       | Cycle \<Rightarrow> placeholder
                                       | Fault e \<Rightarrow> placeholder))
                                   (drop (length (matches_pct_s f)) args)))))
       \<and> (js_String hs format = Inl e \<longrightarrow> fst (updateWarningMap hs (format # args) w) = Inl e)
       \<and> (js_String hs format = Inr f \<longrightarrow>
            sprintf hs f (take (length (matches_pct_s f)) args) = Inl e \<longrightarrow>
            fst (updateWarningMap hs (format # args) w) = Inl e)"
proof -
  have key: "warning_key hs (format # args) =
     (case js_String hs format of
        Inl e \<Rightarrow> Inl e
      | Inr f \<Rightarrow>
         (case sprintf hs f (take (length (matches_pct_s f)) args) of
            Inl e \<Rightarrow> Inl e
          | Inr formatted \<Rightarrow>
             Inr (formatted @
                  concat (map (\<lambda>a. CHR '' '' #
                                 (case plain a of
                                    Text s \<Rightarrow> s
                                  | NoJson \<Rightarrow> []
                                  | Cycle \<Rightarrow> placeholder
                                  | Fault e \<Rightarrow> placeholder))
                              (drop (length (matches_pct_s f)) args)))))"
    unfolding assms by (rule warning_key_safe)
  have a: "fst (updateWarningMap hs (format # args) w) = Inr () \<longleftrightarrow>
            (\<exists>f. js_String hs format = Inr f
                \<and> (\<forall>i < length (matches_pct_s f). \<exists>s. ToString hs (array_get args i) = Inr s))"
  proof (cases "js_String hs format")
    case (Inl err)
    then show ?thesis by (simp add: updateWarningMap_returns key)
  next
    case (Inr g)
    have "fst (updateWarningMap hs (format # args) w) = Inr () \<longleftrightarrow>
        (\<exists>formatted. sprintf hs g (take (length (matches_pct_s g)) args) = Inr formatted)"
      using Inr by (auto simp: updateWarningMap_returns key split: sum.splits)
    then show ?thesis
      using Inr sprintf_succeeds_iff[of hs g args] by simp
  qed
  have b: "js_String hs format = Inr f \<longrightarrow>
            (\<forall>i < length (matches_pct_s f). \<exists>s. ToString hs (array_get args i) = Inr s) \<longrightarrow>
            (\<exists>formatted.
                sprintf hs f (take (length (matches_pct_s f)) args) = Inr formatted
              \<and> warning_key hs (format # args) =
                  Inr (formatted @
                       concat (map (\<lambda>a. CHR '' '' #
                                      (case plain a of
                                         Text s \<Rightarrow> s
                                       | NoJson \<Rightarrow> []
                                       | Cycle \<Rightarrow> placeholder
                                       | Fault e \<Rightarrow> placeholder))
                                   (drop (length (matches_pct_s f)) args))))"
  proof (intro impI)
    assume f: "js_String hs format = Inr f"
      and "\<forall>i < length (matches_pct_s f). \<exists>s. ToString hs (array_get args i) = Inr s"
    then obtain formatted where
      fm: "sprintf hs f (take (length (matches_pct_s f)) args) = Inr formatted"
      using sprintf_succeeds_iff[of hs f args] by blast
    then show "\<exists>formatted.
                sprintf hs f (take (length (matches_pct_s f)) args) = Inr formatted
              \<and> warning_key hs (format # args) =
                  Inr (formatted @
                       concat (map (\<lambda>a. CHR '' '' #
                                      (case plain a of
                                         Text s \<Rightarrow> s
                                       | NoJson \<Rightarrow> []
                                       | Cycle \<Rightarrow> placeholder
                                       | Fault e \<Rightarrow> placeholder))
                                   (drop (length (matches_pct_s f)) args)))"
      using f by (simp add: key)
  qed
  have c: "js_String hs format = Inl e \<longrightarrow> fst (updateWarningMap hs (format # args) w) = Inl e"
    by (simp add: updateWarningMap_returns key)
  have d: "js_String hs format = Inr f \<longrightarrow>
            sprintf hs f (take (length (matches_pct_s f)) args) = Inl e \<longrightarrow>
            fst (updateWarningMap hs (format # args) w) = Inl e"
    by (simp add: updateWarningMap_returns key)
  show ?thesis using a b c d by blast
qed

text \<open>
  Claim C8 as stated fails: a symbol that fills a placeholder cannot be coerced to a
  string, and the TypeError leaves \<^verbatim>\<open>updateWarningMap\<close>; so does what the \<^verbatim>\<open>toString\<close> of a
  format that is an object throws.
\<close>

theorem C8_symbol_throws:
  "fst (updateWarningMap sample_host [JStr ''%s'', JSymbol ''x''] initial_world) = Inl TypeError
   \<and> fst (updateWarningMap (sample_host\<lparr>object_to_string := \<lambda>a. Inl (Thrown (JStr ''no''))\<rparr>)
            [JObject 0] initial_world) = Inl (Thrown (JStr ''no''))"
  by code_simp

text \<open>
  A call with one placeholder, a number to fill it, and behind it an object that refers
  to itself and a value without a JSON form.
\<close>

theorem C8_key_construction_completes_witness:
  "js_String sample_host (JStr ''a %s'') = Inr ''a %s''
   \<and> sample_plain (JObject 7) = Cycle
   \<and> warning_key sample_host [JStr ''a %s'', JNum 1, JObject 7, JUndefined] = Inr ''a 1 [Circular ~] ''
   \<and> fst (updateWarningMap sample_host [JStr ''a %s'', JNum 1, JObject 7, JUndefined] initial_world)
       = Inr ()"
proof -
  have hs: "sample_host = sample_host\<lparr>stringifySafe := json_stringify_safe sample_plain\<rparr>"
    by (simp add: sample_host_def)
  have a: "js_String sample_host (JStr ''a %s'') = Inr ''a %s''"
    by simp
  have n: "length (matches_pct_s ''a %s'') = 1"
    by simp
  have b: "\<forall>i < length (matches_pct_s ''a %s'').
      \<exists>s. ToString sample_host (array_get [JNum 1, JObject 7, JUndefined] i) = Inr s"
    unfolding n by (simp add: array_get_def)
  have c: "sample_plain (JObject 7) = Cycle"
    by (simp add: sample_plain_def)
  have k: "warning_key sample_host [JStr ''a %s'', JNum 1, JObject 7, JUndefined] = Inr ''a 1 [Circular ~] ''"
    by code_simp
  have "fst (updateWarningMap sample_host [JStr ''a %s'', JNum 1, JObject 7, JUndefined] initial_world)
       = Inr ()"
    using C8_key_construction_completes[OF hs, of "JStr ''a %s''" "[JNum 1, JObject 7, JUndefined]"
        initial_world] a b
    by blast
  then show ?thesis using a c k by blast
qed

section \<open>Listeners, deferred notifications and unmounting\<close>

lemma is_scheduled_update_component:
  "is_scheduled c' (update_component c f w) =
     (if c' = c \<and> c < length (components w) then scheduled (f (components w ! c))
      else is_scheduled c' w)"
  by (auto simp: is_scheduled_def update_component_def)

lemma is_scheduled_other_fields [simp]:
  "is_scheduled c (w\<lparr>immediates := q\<rparr>) = is_scheduled c w"
  "is_scheduled c (w\<lparr>warningMap := m\<rparr>) = is_scheduled c w"
  "is_scheduled c (w\<lparr>listeners := l\<rparr>) = is_scheduled c w"
  "is_scheduled c (w\<lparr>deliveries := d\<rparr>) = is_scheduled c w"
  "is_scheduled c (w\<lparr>console_out := out\<rparr>) = is_scheduled c w"
  by (simp_all add: is_scheduled_def)

lemma immediates_warning_listener:
  "immediates (warning_listener c w) = (if is_scheduled c w then immediates w else immediates w @ [c])"
  by (simp add: warning_listener_def)

lemma is_scheduled_warning_listener:
  "c < length (components w) \<Longrightarrow>
   is_scheduled c' (warning_listener c w) \<longleftrightarrow> c' = c \<or> is_scheduled c' w"
  by (auto simp: warning_listener_def is_scheduled_update_component)

lemma sched_ok_warning_listener:
  "sched_ok w \<Longrightarrow> c < length (components w) \<Longrightarrow>
   sched_ok (warning_listener c w) \<and> c \<in> set (immediates (warning_listener c w))"
  by (auto simp: sched_ok_def immediates_warning_listener is_scheduled_warning_listener)

lemma immediates_warning_listener_mono:
  "set (immediates w) \<subseteq> set (immediates (warning_listener c w))"
  by (auto simp: immediates_warning_listener)

lemma immediates_call_listeners_mono:
  "set (immediates w) \<subseteq> set (immediates (call_listeners cs w))"
proof (induction cs arbitrary: w)
  case Nil
  then show ?case by simp
next
  case (Cons c cs)
  show ?case
    using immediates_warning_listener_mono[of w c] Cons[of "warning_listener c w"] by auto
qed

lemma sched_ok_call_listeners:
  "sched_ok w \<Longrightarrow> \<forall>c \<in> set cs. c < length (components w) \<Longrightarrow>
   sched_ok (call_listeners cs w) \<and> set cs \<subseteq> set (immediates (call_listeners cs w))"
proof (induction cs arbitrary: w)
  case Nil
  then show ?case by simp
next
  case (Cons c cs)
  let ?w1 = "warning_listener c w"
  have c: "c < length (components w)" using Cons.prems by simp
  have ok1: "sched_ok ?w1" and in1: "c \<in> set (immediates ?w1)"
    using sched_ok_warning_listener[OF Cons.prems(1) c] by simp_all
  have "\<forall>c \<in> set cs. c < length (components ?w1)" using Cons.prems by simp
  then have ih: "sched_ok (call_listeners cs ?w1) \<and> set cs \<subseteq> set (immediates (call_listeners cs ?w1))"
    using Cons.IH[OF ok1] by simp
  have "c \<in> set (immediates (call_listeners cs ?w1))"
    using in1 immediates_call_listeners_mono[of ?w1 cs] by auto
  then show ?case using ih by simp
qed

lemma sched_ok_map_update:
  "sched_ok (w\<lparr>warningMap := m\<rparr>) = sched_ok w"
  by (simp add: sched_ok_def)

lemma sched_ok_emit:
  "sched_ok w \<Longrightarrow> sched_ok (emit w) \<and> set (listeners w) \<subseteq> set (immediates (emit w))"
  using sched_ok_call_listeners[of w "listeners w"]
  by (simp add: emit_def sched_ok_def)

lemma sched_ok_updateWarningMap:
  "sched_ok w \<Longrightarrow> sched_ok (snd (updateWarningMap h a w))"
  using sched_ok_emit
  by (auto simp: updateWarningMap_def Let_def sched_ok_map_update split: sum.splits)


lemma sched_ok_original: "sched_ok (original m a w) = sched_ok w"
  by (simp add: sched_ok_def original_def)

lemma sched_ok_console_error: "sched_ok w \<Longrightarrow> sched_ok (snd (console_error h e a w))"
  by (simp add: console_error_def wrapped_error_def Let_def sched_ok_original
      sched_ok_updateWarningMap)

lemma sched_ok_console_warn: "sched_ok w \<Longrightarrow> sched_ok (snd (console_warn h e a w))"
  by (simp add: console_warn_def wrapped_warn_def Let_def sched_ok_original
      sched_ok_updateWarningMap)

lemma sched_ok_dismissWarning: "sched_ok w \<Longrightarrow> sched_ok (dismissWarning c k w)"
  by (simp add: sched_ok_def dismissWarning_def is_scheduled_update_component)
    (auto simp: is_scheduled_def)

lemma sched_ok_mount: "sched_ok w \<Longrightarrow> sched_ok (mount h w)"
proof -
  assume ok: "sched_ok w"
  let ?n = "length (components w)"
  have fresh: "?n \<notin> set (immediates w)"
    using ok by (auto simp: sched_ok_def is_scheduled_def)
  have sch: "\<And>c. is_scheduled c (mount h w) = is_scheduled c w"
    by (simp add: mount_def componentDidMount_def constructor_def is_scheduled_update_component)
      (auto simp: is_scheduled_def nth_append)
  have imm: "immediates (mount h w) = immediates w"
    by (simp add: mount_def componentDidMount_def constructor_def)
  have lis: "listeners (mount h w) = listeners w @ [?n]"
    by (simp add: mount_def componentDidMount_def constructor_def)
  have len: "length (components (mount h w)) = Suc ?n"
    by (simp add: mount_def componentDidMount_def constructor_def)
  show ?thesis
    using ok by (auto simp: sched_ok_def sch imm lis len less_Suc_eq)
qed

lemma sched_ok_componentWillUnmount: "sched_ok w \<Longrightarrow> sched_ok (snd (componentWillUnmount c w))"
  by (auto simp: sched_ok_def componentWillUnmount_def remove_listener_def
      split: option.splits listener_handle.splits)

lemma is_scheduled_immediate_callback:
  "is_scheduled c' (immediate_callback c w) \<longleftrightarrow> c' \<noteq> c \<and> is_scheduled c' w"
  by (auto simp: immediate_callback_def is_scheduled_update_component)
    (auto simp: is_scheduled_def update_component_def)

lemma is_scheduled_run_callbacks:
  "is_scheduled c' (run_callbacks q w) \<longleftrightarrow> c' \<notin> set q \<and> is_scheduled c' w"
  by (induction q arbitrary: w) (auto simp: is_scheduled_immediate_callback)

lemma sched_ok_run_immediates: "sched_ok w \<Longrightarrow> sched_ok (run_immediates w)"
  by (auto simp: sched_ok_def run_immediates_def is_scheduled_run_callbacks)

lemma sched_ok_step: "sched_ok w \<Longrightarrow> sched_ok (step h e ev w)"
  by (cases ev)
    (simp_all add: sched_ok_updateWarningMap sched_ok_console_error sched_ok_console_warn
      sched_ok_dismissWarning sched_ok_mount sched_ok_componentWillUnmount sched_ok_run_immediates)

lemma sched_ok_run: "sched_ok w \<Longrightarrow> sched_ok (run h e evs w)"
  by (induction evs arbitrary: w) (simp_all add: sched_ok_step)

lemma sched_ok_reachable: "sched_ok (run h e evs initial_world)"
  by (rule sched_ok_run) (simp add: sched_ok_def initial_world_def is_scheduled_def)

lemma deliveries_updateWarningMap [simp]:
  "deliveries (snd (updateWarningMap h a w)) = deliveries w"
  by (simp add: updateWarningMap_def Let_def split: sum.splits)

lemma listeners_updateWarningMap [simp]:
  "listeners (snd (updateWarningMap h a w)) = listeners w"
  by (simp add: updateWarningMap_def Let_def split: sum.splits)

lemma immediates_updateWarningMap_mono:
  "set (immediates w) \<subseteq> set (immediates (snd (updateWarningMap h a w)))"
proof (cases "warning_key h a")
  case (Inl err)
  then show ?thesis by (simp add: updateWarningMap_def)
next
  case (Inr k)
  let ?w1 = "w\<lparr>warningMap := Map_set k (warning_count k (warningMap w) + 1) (warningMap w)\<rparr>"
  have "set (immediates ?w1) \<subseteq> set (immediates (call_listeners (listeners ?w1) ?w1))"
    by (rule immediates_call_listeners_mono)
  then show ?thesis using Inr by (simp add: updateWarningMap_def Let_def emit_def)
qed

lemma immediates_updateWarningMap_listeners:
  "sched_ok w \<Longrightarrow> warning_key h a = Inr k \<Longrightarrow>
   set (listeners w) \<subseteq> set (immediates (snd (updateWarningMap h a w)))"
  using sched_ok_emit[of "w\<lparr>warningMap := Map_set k (warning_count k (warningMap w) + 1) (warningMap w)\<rparr>"]
  by (simp add: updateWarningMap_def Let_def sched_ok_map_update)

text \<open>A block of calls of \<^verbatim>\<open>updateWarningMap\<close>, one after the other, with no turn of the loop between them.\<close>

lemma records_block:
  "sched_ok w \<Longrightarrow>
   sched_ok (run h e (map Record calls) w)
   \<and> deliveries (run h e (map Record calls) w) = deliveries w
   \<and> listeners (run h e (map Record calls) w) = listeners w
   \<and> set (immediates w) \<subseteq> set (immediates (run h e (map Record calls) w))
   \<and> ((\<exists>a \<in> set calls. \<exists>k. warning_key h a = Inr k) \<longrightarrow>
        set (listeners w) \<subseteq> set (immediates (run h e (map Record calls) w)))"
proof (induction calls arbitrary: w)
  case Nil
  then show ?case by simp
next
  case (Cons a calls)
  let ?w1 = "snd (updateWarningMap h a w)"
  let ?w' = "run h e (map Record calls) ?w1"
  have ok1: "sched_ok ?w1" using Cons.prems by (rule sched_ok_updateWarningMap)
  have ih: "sched_ok ?w' \<and> deliveries ?w' = deliveries ?w1 \<and> listeners ?w' = listeners ?w1
     \<and> set (immediates ?w1) \<subseteq> set (immediates ?w')
     \<and> ((\<exists>a \<in> set calls. \<exists>k. warning_key h a = Inr k) \<longrightarrow> set (listeners ?w1) \<subseteq> set (immediates ?w'))"
    using Cons.IH[OF ok1] .
  have mono: "set (immediates w) \<subseteq> set (immediates ?w')"
    using ih immediates_updateWarningMap_mono[of w h a] by blast
  have last: "(\<exists>a' \<in> set (a # calls). \<exists>k. warning_key h a' = Inr k) \<longrightarrow>
      set (listeners w) \<subseteq> set (immediates ?w')"
  proof
    assume "\<exists>a' \<in> set (a # calls). \<exists>k. warning_key h a' = Inr k"
    then consider (here) k where "warning_key h a = Inr k"
      | (later) "\<exists>a' \<in> set calls. \<exists>k. warning_key h a' = Inr k"
      by auto
    then show "set (listeners w) \<subseteq> set (immediates ?w')"
    proof cases
      case here
      then have "set (listeners w) \<subseteq> set (immediates ?w1)"
        using immediates_updateWarningMap_listeners[OF Cons.prems] by simp
      then show ?thesis using ih by blast
    next
      case later
      then show ?thesis using ih by simp
    qed
  qed
  show ?case using ih mono last by simp
qed

lemma deliveries_run_callbacks:
  "deliveries (run_callbacks q w) = deliveries w @ map (\<lambda>c. (c, warningMap w)) q"
  by (induction q arbitrary: w) (simp_all add: immediate_callback_def)

lemma deliveries_run_immediates:
  "deliveries (run_immediates w) = deliveries w @ map (\<lambda>c. (c, warningMap w)) (immediates w)"
  by (simp add: run_immediates_def deliveries_run_callbacks)

lemma filter_once: "distinct xs \<Longrightarrow> c \<in> set xs \<Longrightarrow> filter (\<lambda>x. x = c) xs = [c]"
  by (induction xs) (auto simp: filter_empty_conv)

text \<open>
  Claim C7. Take any state the module can reach, a component \<open>c\<close> whose listener is
  registered, and a block of calls of \<^verbatim>\<open>updateWarningMap\<close> with no turn of the host's loop
  between them, at least one of which gets as far as \<^verbatim>\<open>emit\<close> (a call whose key cannot be
  built throws before it). During the block no \<^verbatim>\<open>setState\<close> is delivered to anyone. After
  it the queue of \<^verbatim>\<open>setImmediate\<close> holds exactly one callback of \<open>c\<close>, however many calls
  there were and whether or not a callback of \<open>c\<close> was pending before. The next turn of the
  loop runs the queue: \<open>c\<close> receives exactly one \<^verbatim>\<open>setState\<close>, which carries the map as the
  block left it, and the queue is empty again.
\<close>

theorem C7_notifications_coalesced:
  assumes "w = run h e evs initial_world"
    and "c \<in> set (listeners w)"
    and "\<exists>arguments \<in> set calls. \<exists>k. warning_key h arguments = Inr k"
    and "w' = run h e (map Record calls) w"
  shows "deliveries w' = deliveries w
       \<and> filter (\<lambda>x. x = c) (immediates w') = [c]
       \<and> deliveries (run_immediates w') = deliveries w' @ map (\<lambda>c. (c, warningMap w')) (immediates w')
       \<and> filter (\<lambda>d. fst d = c) (map (\<lambda>c. (c, warningMap w')) (immediates w')) = [(c, warningMap w')]
       \<and> immediates (run_immediates w') = []"
proof -
  have ok: "sched_ok w" using assms(1) sched_ok_reachable by simp
  have blk: "sched_ok w' \<and> deliveries w' = deliveries w
     \<and> ((\<exists>a \<in> set calls. \<exists>k. warning_key h a = Inr k) \<longrightarrow> set (listeners w) \<subseteq> set (immediates w'))"
    using records_block[OF ok, of h e calls] assms(4) by simp
  have d: "distinct (immediates w')" using blk by (simp add: sched_ok_def)
  have cin: "c \<in> set (immediates w')" using blk assms(2,3) by blast
  have once: "filter (\<lambda>x. x = c) (immediates w') = [c]"
    using d cin by (rule filter_once)
  have "filter (\<lambda>d. fst d = c) (map (\<lambda>c. (c, warningMap w')) (immediates w'))
      = map (\<lambda>c. (c, warningMap w')) (filter (\<lambda>x. x = c) (immediates w'))"
    by (simp add: filter_map o_def)
  then have one: "filter (\<lambda>d. fst d = c) (map (\<lambda>c. (c, warningMap w')) (immediates w')) = [(c, warningMap w')]"
    using once by simp
  have emp: "immediates (run_immediates w') = []"
    by (simp add: run_immediates_def)
  show ?thesis using blk once one emp deliveries_run_immediates[of w'] by simp
qed


text \<open>
  One mounted component and three calls in a block, two of them with the same key.
\<close>

theorem C7_notifications_coalesced_witness:
  "0 \<in> set (listeners (run sample_host development [Mount] initial_world))
   \<and> (\<exists>k. warning_key sample_host [JStr ''a''] = Inr k)
   \<and> deliveries (run sample_host development (map Record [[JStr ''a''], [JStr ''b''], [JStr ''a'']])
         (run sample_host development [Mount] initial_world)) = []
   \<and> deliveries (run_immediates
         (run sample_host development (map Record [[JStr ''a''], [JStr ''b''], [JStr ''a'']])
           (run sample_host development [Mount] initial_world)))
       = [(0, [(''a'', 2), (''b'', 1)])]"
proof -
  let ?w = "run sample_host development [Mount] initial_world"
  let ?calls = "[[JStr ''a''], [JStr ''b''], [JStr ''a'']]"
  let ?w' = "run sample_host development (map Record ?calls) ?w"
  have l: "0 \<in> set (listeners ?w)"
    by code_simp
  have k: "warning_key sample_host [JStr ''a''] = Inr ''a''"
    by code_simp
  then have ex: "\<exists>arguments \<in> set ?calls. \<exists>k. warning_key sample_host arguments = Inr k"
    by simp
  have d0: "deliveries ?w = []"
    by code_simp
  have q: "immediates ?w' = [0]"
    by code_simp
  have m: "warningMap ?w' = [(''a'', 2), (''b'', 1)]"
    by code_simp
  have "deliveries ?w' = [] \<and> deliveries (run_immediates ?w') = [(0, [(''a'', 2), (''b'', 1)])]"
    using C7_notifications_coalesced[OF refl l ex refl] d0 q m by simp
  then show ?thesis using l k by blast
qed

text \<open>
  Claim C6, evaluated. With an emitter whose \<^verbatim>\<open>addListener\<close> returns the emitter itself (the
  \<^verbatim>\<open>events\<close> module of Node, which the code imports), \<^verbatim>\<open>componentWillUnmount\<close> finds no
  \<^verbatim>\<open>remove\<close> function and leaves the listener registered: a component that is mounted and
  at once unmounted still receives the notification of the next call of
  \<^verbatim>\<open>updateWarningMap\<close>. The older copy of the component calls \<^verbatim>\<open>remove\<close> unguarded and
  throws. With an emitter that returns a subscription object the same run delivers
  nothing.
\<close>

theorem C6_unmount_keeps_listener:
  "listeners (run (h\<lparr>addListener_returns := \<lambda>c. EmitterItself\<rparr>) e [Mount, Unmount 0] initial_world) = [0]
   \<and> deliveries (run (h\<lparr>addListener_returns := \<lambda>c. EmitterItself\<rparr>) e
        [Mount, Unmount 0, Record [JStr ''x''], Tick] initial_world) = [(0, [(''x'', 1)])]
   \<and> fst (componentWillUnmount_index 0 (mount (h\<lparr>addListener_returns := \<lambda>c. EmitterItself\<rparr>) initial_world))
        = Inl TypeError
   \<and> deliveries (run (h\<lparr>addListener_returns := Subscription\<rparr>) e
        [Mount, Unmount 0, Record [JStr ''x''], Tick] initial_world) = []"
proof -
  let ?node = "h\<lparr>addListener_returns := \<lambda>c. EmitterItself\<rparr>"
  let ?rn = "h\<lparr>addListener_returns := Subscription\<rparr>"
  let ?w1 = "\<lparr>warningMap = [], listeners = [0],
      components = [\<lparr>inspecting = None, scheduled = False, listener = Some EmitterItself\<rparr>],
      immediates = [], deliveries = [], console_out = []\<rparr>"
  let ?w1' = "\<lparr>warningMap = [], listeners = [0],
      components = [\<lparr>inspecting = None, scheduled = False, listener = Some (Subscription 0)\<rparr>],
      immediates = [], deliveries = [], console_out = []\<rparr>"
  have m: "mount ?node initial_world = ?w1"
    by (simp add: mount_def componentDidMount_def constructor_def update_component_def initial_world_def)
  have u: "componentWillUnmount 0 ?w1 = (Inr (), ?w1)"
    by (simp add: componentWillUnmount_def component_listener_def has_remove_def)
  have kx: "\<And>h'. warning_key h' [JStr ''x''] = Inr ''x''"
    by (simp add: warning_key_def match_pct_s_def sprintf_def)
  have a: "listeners (run ?node e [Mount, Unmount 0] initial_world) = [0]"
    by (simp add: m u)
  have r: "snd (updateWarningMap ?node [JStr ''x''] ?w1) =
      ?w1\<lparr>warningMap := [(''x'', 1)], immediates := [0],
        components := [\<lparr>inspecting = None, scheduled = True, listener = Some EmitterItself\<rparr>]\<rparr>"
    by (simp add: updateWarningMap_def kx Let_def warning_count_def emit_def
        warning_listener_def is_scheduled_def update_component_def)
  have b: "deliveries (run ?node e [Mount, Unmount 0, Record [JStr ''x''], Tick] initial_world)
      = [(0, [(''x'', 1)])]"
    by (simp add: m u r run_immediates_def immediate_callback_def update_component_def)
  have c: "fst (componentWillUnmount_index 0 (mount ?node initial_world)) = Inl TypeError"
    unfolding m by (simp add: componentWillUnmount_index_def component_listener_def remove_listener_def)
  have m': "mount ?rn initial_world = ?w1'"
    by (simp add: mount_def componentDidMount_def constructor_def update_component_def initial_world_def)
  let ?w2' = "\<lparr>warningMap = [], listeners = [],
      components = [\<lparr>inspecting = None, scheduled = False, listener = Some (Subscription 0)\<rparr>],
      immediates = [], deliveries = [], console_out = []\<rparr>"
  have u': "snd (componentWillUnmount 0 ?w1') = ?w2'"
    by (simp add: componentWillUnmount_def component_listener_def has_remove_def remove_listener_def)
  have r': "snd (updateWarningMap ?rn [JStr ''x''] ?w2') = ?w2'\<lparr>warningMap := [(''x'', 1)]\<rparr>"
    by (simp add: updateWarningMap_def kx Let_def warning_count_def emit_def)
  have d: "deliveries (run ?rn e [Mount, Unmount 0, Record [JStr ''x''], Tick] initial_world) = []"
    by (simp add: m' u' r' run_immediates_def)
  show ?thesis using a b c d by blast
qed


end
